theory Spec2Isabelle
  imports Main
begin

section \<open>Strings\<close>

text \<open>
  A JavaScript string is the sequence of its UTF-16 code units, each a natural number
  below 65536: \<open>length\<close> is \<open>.length\<close> and \<open>take n\<close> is \<open>substring(0, n)\<close>. \<open>js\<close> writes an
  ASCII literal of the sources and \<open>cu\<close> one ASCII character.
\<close>

type_synonym jstring = "nat list"

abbreviation (input) cu :: "char \<Rightarrow> nat" where
  "cu c \<equiv> of_char c"

abbreviation (input) js :: "string \<Rightarrow> jstring" where
  "js s \<equiv> map of_char s"

abbreviation (input) nl :: nat where
  "nl \<equiv> 10"

text \<open>
  \<open>toLowerCase\<close>. The letters \<open>A\<close> to \<open>Z\<close> go to \<open>a\<close> to \<open>z\<close>. Two characters outside ASCII
  have a lower-case form that holds an ASCII letter: U+0130, which becomes \<open>i\<close> followed by
  U+0307, and the Kelvin sign U+212A, which becomes \<open>k\<close>. The lower-case forms of all other
  characters outside ASCII lie outside ASCII; such a code unit is kept as it is, which
  changes no test of the program, each of them a search for an ASCII text.
\<close>

definition toLowerUnit :: "nat \<Rightarrow> jstring" where
  "toLowerUnit c =
     (if 65 \<le> c \<and> c \<le> 90 then [c + 32]
      else if c = 304 then [105, 775]
      else if c = 8490 then [107]
      else [c])"

definition toLowerCase :: "jstring \<Rightarrow> jstring" where
  "toLowerCase s = concat (map toLowerUnit s)"

text \<open>
  The case folding of a regular expression with the flag \<open>i\<close> (and without \<open>u\<close>): a
  character outside ASCII is never folded onto an ASCII letter.
\<close>

definition foldUnit :: "nat \<Rightarrow> nat" where
  "foldUnit c = (if 65 \<le> c \<and> c \<le> 90 then c + 32 else c)"

fun startsWith :: "jstring \<Rightarrow> jstring \<Rightarrow> bool" where
  "startsWith s [] = True"
| "startsWith [] (p # ps) = False"
| "startsWith (c # cs) (p # ps) = (c = p \<and> startsWith cs ps)"

text \<open>\<open>s.includes(sub)\<close>: \<open>sub\<close> occurs somewhere in \<open>s\<close>.\<close>

fun includes_str :: "jstring \<Rightarrow> jstring \<Rightarrow> bool" where
  "includes_str [] sub = (sub = [])"
| "includes_str (c # cs) sub = (startsWith (c # cs) sub \<or> includes_str cs sub)"

text \<open>
  The white space and line terminators that \<open>trim\<close> removes (and that \<open>\s\<close> matches):
  U+0009 to U+000D, U+0020, U+00A0, U+1680, U+2000 to U+200A, U+2028, U+2029, U+202F,
  U+205F, U+3000 and U+FEFF.
\<close>

definition isWhiteSpace :: "nat \<Rightarrow> bool" where
  "isWhiteSpace c =
     ((9 \<le> c \<and> c \<le> 13) \<or> c = 32 \<or> c = 160 \<or> c = 5760 \<or> (8192 \<le> c \<and> c \<le> 8202)
      \<or> c = 8232 \<or> c = 8233 \<or> c = 8239 \<or> c = 8287 \<or> c = 12288 \<or> c = 65279)"

definition trim :: "jstring \<Rightarrow> jstring" where
  "trim s = rev (dropWhile isWhiteSpace (rev (dropWhile isWhiteSpace s)))"

text \<open>\<open>s.trim().length === 0\<close>.\<close>

definition trimIsEmpty :: "jstring \<Rightarrow> bool" where
  "trimIsEmpty s = (length (trim s) = 0)"

text \<open>The join of \<open>Array.prototype.join\<close>.\<close>

fun join :: "jstring \<Rightarrow> jstring list \<Rightarrow> jstring" where
  "join sep [] = []"
| "join sep [x] = x"
| "join sep (x # y # ys) = x @ sep @ join sep (y # ys)"

text \<open>A number in a template literal: its decimal digits.\<close>

definition digitChar :: "nat \<Rightarrow> nat" where
  "digitChar d = 48 + d mod 10"

fun showNat :: "nat \<Rightarrow> jstring" where
  "showNat n = (if n < 10 then [digitChar n] else showNat (n div 10) @ [digitChar (n mod 10)])"

declare showNat.simps [simp del]

definition showInt :: "int \<Rightarrow> jstring" where
  "showInt i = (if i < 0 then cu CHR ''-'' # showNat (nat (- i)) else showNat (nat i))"

text \<open>\<open>a || b\<close> on strings that may be \<open>null\<close>: the empty string is falsy.\<close>

definition truthy :: "jstring option \<Rightarrow> bool" where
  "truthy v = (case v of None \<Rightarrow> False | Some s \<Rightarrow> s \<noteq> [])"

definition orElse :: "jstring option \<Rightarrow> jstring option \<Rightarrow> jstring option" where
  "orElse a b = (if truthy a then a else b)"

section \<open>Errors\<close>

text \<open>The error classes of \<open>utils/errors.js\<close> that the dispatcher and the aggregator
  throw, each with its message; \<open>Error\<close> and \<open>TypeError\<close> are built in.\<close>

datatype js_error =
    Error jstring
  | ValidationError jstring
  | ConfigurationError jstring
  | WorkerError jstring
  | TimeoutError jstring
  | TypeError jstring

fun message :: "js_error \<Rightarrow> jstring" where
  "message (Error m) = m"
| "message (ValidationError m) = m"
| "message (ConfigurationError m) = m"
| "message (WorkerError m) = m"
| "message (TimeoutError m) = m"
| "message (TypeError m) = m"

section \<open>Environment: \<open>utils/env.js\<close>\<close>

text \<open>\<open>process.env\<close> is a map from variable names to values.\<close>

type_synonym process_env = "jstring \<Rightarrow> jstring option"

definition OPENAI :: jstring where "OPENAI = (js ''openai'')"
definition ANTHROPIC :: jstring where "ANTHROPIC = (js ''anthropic'')"
definition GEMINI :: jstring where "GEMINI = (js ''gemini'')"
definition GROQ :: jstring where "GROQ = (js ''groq'')"

text \<open>\<open>getApiKeys\<close>: a missing, empty or blank key is normalised to \<open>null\<close>.\<close>

definition normaliseKey :: "jstring option \<Rightarrow> jstring option" where
  "normaliseKey k = (case k of None \<Rightarrow> None | Some s \<Rightarrow> if s = [] \<or> trimIsEmpty s then None else Some s)"

definition getApiKeys :: "process_env \<Rightarrow> (jstring \<times> jstring option) list" where
  "getApiKeys env =
     [(OPENAI, normaliseKey (env (js ''OPENAI_API_KEY''))),
      (ANTHROPIC, normaliseKey (env (js ''ANTHROPIC_API_KEY''))),
      (GEMINI, normaliseKey (env (js ''GEMINI_API_KEY''))),
      (GROQ, normaliseKey (env (js ''GROQ_API_KEY'')))]"

definition keyPresent :: "jstring option \<Rightarrow> bool" where
  "keyPresent k = (case k of None \<Rightarrow> False | Some s \<Rightarrow> \<not> trimIsEmpty s)"

definition getAvailableProviders :: "process_env \<Rightarrow> jstring list" where
  "getAvailableProviders env = map fst (filter (\<lambda>pk. keyPresent (snd pk)) (getApiKeys env))"

definition getDefaultProvider :: "process_env \<Rightarrow> jstring option" where
  "getDefaultProvider env =
     (let available = getAvailableProviders env in
      if length available = 0 then None
      else if length available = 1 then Some (hd available)
      else (case find (\<lambda>p. p \<in> set available) [GEMINI, GROQ, ANTHROPIC, OPENAI] of
              Some p \<Rightarrow> Some p
            | None \<Rightarrow> Some (hd available)))"

definition getApiKey :: "process_env \<Rightarrow> jstring \<Rightarrow> jstring option" where
  "getApiKey env provider =
     (case map_of (getApiKeys env) provider of
        Some (Some k) \<Rightarrow> (if k = [] then None else Some k)
      | _ \<Rightarrow> None)"

definition isFallbackMode :: "process_env \<Rightarrow> bool" where
  "isFallbackMode env = (length (getAvailableProviders env) = 0)"

section \<open>Task definitions and prompts: \<open>processAgent\<close>\<close>

text \<open>An agent definition of a preset, as \<open>getAgents\<close> returns it from the configuration.\<close>

record agent_def =
  name :: jstring
  role :: jstring
  description :: jstring
  focus :: jstring

text \<open>The object that \<open>processAgent\<close> returns.\<close>

record agent_prompt =
  agent :: jstring
  p_role :: jstring
  p_description :: jstring
  p_focus :: jstring
  prompt :: jstring
  timestamp :: jstring

text \<open>
  \<open>getAgentGuidelines\<close> looks the agent up by name and hands it to the prompt generator of
  the preset, a pure function of the agent, the request and the context; the generator is
  a parameter of the model.
\<close>

type_synonym prompt_generator = "agent_def \<Rightarrow> jstring \<Rightarrow> jstring \<Rightarrow> jstring"

definition unknownAgent :: "jstring \<Rightarrow> jstring \<Rightarrow> js_error" where
  "unknownAgent agentName presetName =
     Error ((js ''Unknown agent: '') @ agentName @ js '' in preset '' @ [34] @ presetName @ [34])"

definition getAgentGuidelines ::
  "agent_def list \<Rightarrow> prompt_generator \<Rightarrow> jstring \<Rightarrow> jstring \<Rightarrow> jstring \<Rightarrow> jstring \<Rightarrow> js_error + jstring" where
  "getAgentGuidelines agents promptGenerator agentName userRequest presetName context =
     (case find (\<lambda>a. name a = agentName) agents of
        None \<Rightarrow> Inl (unknownAgent agentName presetName)
      | Some a \<Rightarrow> Inr (promptGenerator a userRequest context))"

definition rule80 :: jstring where
  "rule80 = replicate 80 (cu CHR ''='')"

definition processAgent ::
  "agent_def list \<Rightarrow> prompt_generator \<Rightarrow> jstring \<Rightarrow> jstring \<Rightarrow> jstring \<Rightarrow> jstring \<Rightarrow> jstring \<Rightarrow> js_error + agent_prompt" where
  "processAgent agents promptGenerator now agentName userRequest context presetName =
     (case find (\<lambda>a. name a = agentName) agents of
        None \<Rightarrow> Inl (unknownAgent agentName presetName)
      | Some a \<Rightarrow>
         (case getAgentGuidelines agents promptGenerator agentName userRequest presetName context of
            Inl e \<Rightarrow> Inl e
          | Inr guidelines \<Rightarrow>
             Inr \<lparr> agent = agentName, p_role = role a, p_description = description a,
                   p_focus = focus a,
                   prompt =
                     [nl] @ rule80 @ [nl]
                     @ js ''AGENT: '' @ agentName @ js '' ('' @ role a @ js '')'' @ [nl]
                     @ rule80 @ [nl, nl]
                     @ guidelines
                     @ (if context \<noteq> [] then
                          [nl, nl] @ js ''--- CONTEXT FROM OTHER CHAT WINDOWS ---'' @ [nl]
                          @ context @ [nl]
                          @ js ''--- END CONTEXT ---'' @ [nl, nl]
                          @ js ''IMPORTANT: Consider the above context when providing your analysis.'' @ [nl]
                          @ js ''Incorporate relevant information from other conversations.'' @ [nl]
                        else [])
                     @ [nl, nl] @ js ''--- AGENT OUTPUT REQUEST ---'' @ [nl]
                     @ js ''As '' @ role a @ js '', analyze the task and provide:'' @ [nl]
                     @ js ''1. Your analysis and recommendations'' @ [nl]
                     @ js ''2. Code examples if applicable'' @ [nl]
                     @ js ''3. Best practices specific to your role'' @ [nl]
                     @ js ''4. Any concerns or considerations'' @ [nl],
                   timestamp = now \<rparr>))"

section \<open>Execution units: \<open>processAgentWithWorker\<close>\<close>

text \<open>The message a worker posts, and the value the promise resolves to.\<close>

record worker_message =
  m_success :: bool
  m_agent :: jstring
  m_response :: jstring
  m_error :: jstring
  m_timestamp :: jstring

record worker_result =
  r_agent :: jstring
  r_response :: "jstring option"
  r_error :: "jstring option"
  r_timestamp :: jstring
  r_success :: bool

text \<open>
  What reaches the handlers of one worker, in the order of arrival: a message, an error
  event with its message, an exit with its code. \<open>CreateFails\<close> is the constructor of the
  worker throwing. The deadline timer is armed when the worker is created, so it fires
  after the events that arrive before the deadline.
\<close>

datatype worker_event = OnMessage worker_message | OnError jstring | OnExit int

datatype worker_run = CreateFails jstring | Events "worker_event list"

datatype settlement = Pending | Resolved worker_result | Rejected js_error

text \<open>\<open>resolveOnce\<close> and \<open>rejectOnce\<close>: the first settlement wins (\<open>isResolved\<close>).\<close>

definition resolveOnce :: "settlement \<Rightarrow> worker_result \<Rightarrow> settlement" where
  "resolveOnce st v = (if st \<noteq> Pending then st else Resolved v)"

definition rejectOnce :: "settlement \<Rightarrow> js_error \<Rightarrow> settlement" where
  "rejectOnce st e = (if st \<noteq> Pending then st else Rejected e)"

fun onEvent :: "settlement \<Rightarrow> worker_event \<Rightarrow> settlement" where
  "onEvent st (OnMessage result) =
     (if m_success result then
        resolveOnce st \<lparr> r_agent = m_agent result, r_response = Some (m_response result),
                          r_error = None, r_timestamp = m_timestamp result, r_success = True \<rparr>
      else
        resolveOnce st \<lparr> r_agent = m_agent result, r_response = None,
                          r_error = Some (m_error result), r_timestamp = m_timestamp result,
                          r_success = False \<rparr>)"
| "onEvent st (OnError m) = rejectOnce st (WorkerError ((js ''Worker error: '') @ m))"
| "onEvent st (OnExit code) =
     (if st = Pending then
        (if code \<noteq> 0 then rejectOnce st (WorkerError ((js ''Worker stopped with exit code '') @ showInt code))
         else rejectOnce st (WorkerError (js ''Worker exited without sending a message'')))
      else st)"

definition onTimeout :: "nat \<Rightarrow> settlement \<Rightarrow> settlement" where
  "onTimeout timeoutMs st =
     rejectOnce st (TimeoutError ((js ''Worker timeout after '') @ showNat timeoutMs @ (js ''ms'')))"

text \<open>
  The promise of \<open>processAgentWithWorker\<close>, awaited: the value, the error thrown, or
  \<open>None\<close> for a promise that is never settled. When the constructor of the worker throws,
  the \<open>catch\<close> rejects and no timer has been armed; otherwise the handlers see the events
  and then the deadline.
\<close>

definition awaited :: "settlement \<Rightarrow> (js_error + worker_result) option" where
  "awaited st =
     (case st of
        Pending \<Rightarrow> None
      | Resolved v \<Rightarrow> Some (Inr v)
      | Rejected e \<Rightarrow> Some (Inl e))"

definition processAgentWithWorker :: "nat \<Rightarrow> worker_run \<Rightarrow> (js_error + worker_result) option" where
  "processAgentWithWorker timeoutMs run =
     awaited
       (case run of
          CreateFails m \<Rightarrow> rejectOnce Pending (WorkerError (js ''Failed to create worker: '' @ m))
        | Events evs \<Rightarrow> onTimeout timeoutMs (foldl onEvent Pending evs))"

section \<open>Task dispatcher: \<open>processAllAgents\<close>\<close>

text \<open>An entry of the result set: the prompt object spread, and the fields added to it.\<close>

record agent_response = agent_prompt +
  actualResponse :: "jstring option"
  error :: "jstring option"
  hasActualResponse :: bool
  success :: bool
  fallbackMode :: bool

text \<open>The \<open>workerData\<close> a worker is created with.\<close>

record worker_data =
  wd_name :: jstring
  wd_prompt :: jstring
  wd_provider :: jstring
  wd_model :: "jstring option"

text \<open>What a call of \<open>processAllAgents\<close> returns, and the workers it has created.\<close>

record dispatch =
  responses :: "agent_response list"
  spawned :: "worker_data list"

text \<open>
  \<open>Promise.all\<close>. A promise is \<open>None\<close> when it is never settled. The result is the first
  rejection if there is one, the values if every promise is fulfilled, and otherwise it
  is never settled either.
\<close>

fun promiseAll :: "(js_error + 'a) option list \<Rightarrow> (js_error + 'a list) option" where
  "promiseAll [] = Some (Inr [])"
| "promiseAll (x # xs) =
     (case x of
        Some (Inl e) \<Rightarrow> Some (Inl e)
      | Some (Inr v) \<Rightarrow>
          (case promiseAll xs of
             Some (Inr vs) \<Rightarrow> Some (Inr (v # vs))
           | Some (Inl e) \<Rightarrow> Some (Inl e)
           | None \<Rightarrow> None)
      | None \<Rightarrow>
          (case promiseAll xs of
             Some (Inl e) \<Rightarrow> Some (Inl e)
           | _ \<Rightarrow> None))"

text \<open>
  The model that no caller has chosen: \<open>getBestAvailableModel\<close> of the provider's agent
  class, whose answer comes from the network (\<open>bestAvailable\<close>, \<open>None\<close> when it throws and
  the \<open>catch\<close> keeps the model \<open>null\<close>).
\<close>

definition selectTargetModel ::
  "process_env \<Rightarrow> (jstring \<Rightarrow> jstring option) \<Rightarrow> jstring option \<Rightarrow> jstring option \<Rightarrow> jstring option" where
  "selectTargetModel env bestAvailable targetProvider model =
     (if \<not> truthy model \<and> \<not> isFallbackMode env \<and> truthy targetProvider then
        (case targetProvider of
           None \<Rightarrow> model
         | Some p \<Rightarrow>
            (case getApiKey env p of
               None \<Rightarrow> model
             | Some apiKey \<Rightarrow>
                (if p \<in> set [OPENAI, ANTHROPIC, GEMINI, GROQ] then
                   (case bestAvailable p of Some m \<Rightarrow> Some m | None \<Rightarrow> model)
                 else model)))
      else model)"

text \<open>The warning sign of the fallback text: U+26A0 and the variation selector U+FE0F.\<close>

definition warningSign :: jstring where
  "warningSign = [9888, 65039]"

definition fallbackResponse :: "jstring \<Rightarrow> agent_prompt \<Rightarrow> agent_response" where
  "fallbackResponse now agentPrompt =
     (agent_prompt.extend agentPrompt
        (agent_response.fields
           (Some ((js ''[FALLBACK MODE] This is the generated prompt for '') @ agent agentPrompt @ js '':''
                  @ [nl, nl] @ prompt agentPrompt @ [nl, nl] @ warningSign
                  @ (js ''  Note: No LLM API key configured. Set at least one API key in .env to get actual LLM responses.'')))
           None True True True))
     \<lparr> timestamp := now \<rparr>"

text \<open>The body of the \<open>try\<close> and of the \<open>catch\<close> around one worker.\<close>

definition workerResponse :: "jstring \<Rightarrow> agent_prompt \<Rightarrow> js_error + worker_result \<Rightarrow> agent_response" where
  "workerResponse now agentPrompt outcome =
     (case outcome of
        Inr result \<Rightarrow>
          (if r_success result then
             (agent_prompt.extend agentPrompt
                (agent_response.fields (r_response result) None True True False))
             \<lparr> timestamp := r_timestamp result \<rparr>
           else
             (agent_prompt.extend agentPrompt
                (agent_response.fields None (r_error result) False False False))
             \<lparr> timestamp := r_timestamp result \<rparr>)
      | Inl err \<Rightarrow>
          (let errorMessage =
                 (case err of
                    WorkerError m \<Rightarrow> m
                  | TimeoutError m \<Rightarrow> m
                  | _ \<Rightarrow> (js ''Unexpected error: '') @ message err)
           in (agent_prompt.extend agentPrompt
                 (agent_response.fields None (Some errorMessage) False False False))
              \<lparr> timestamp := now \<rparr>))"

definition workerDataOf :: "jstring \<Rightarrow> jstring option \<Rightarrow> agent_prompt \<Rightarrow> worker_data" where
  "workerDataOf targetProvider targetModel agentPrompt =
     \<lparr> wd_name = agent agentPrompt, wd_prompt = prompt agentPrompt,
       wd_provider = targetProvider,
       wd_model = (if truthy targetModel then targetModel else None) \<rparr>"

text \<open>
  \<open>processAllAgents\<close>. \<open>agents\<close> is what \<open>getAgents(presetName)\<close> returns, \<open>runs i\<close> is what
  happens to the worker of the task at index \<open>i\<close>; the deadline is the default of
  \<open>processAgentWithWorker\<close>, 120000 ms. The result is \<open>None\<close> when the call never returns.
\<close>

definition processAllAgents ::
  "process_env \<Rightarrow> agent_def list \<Rightarrow> prompt_generator \<Rightarrow> jstring \<Rightarrow> (jstring \<Rightarrow> jstring option)
   \<Rightarrow> (nat \<Rightarrow> worker_run) \<Rightarrow> jstring \<Rightarrow> jstring \<Rightarrow> jstring \<Rightarrow> jstring option \<Rightarrow> jstring option
   \<Rightarrow> (js_error + dispatch) option" where
  "processAllAgents env agents promptGenerator now bestAvailable runs
       userRequest context presetName provider model =
     (let fallbackMode = isFallbackMode env;
          targetProvider = orElse provider (getDefaultProvider env);
          targetModel = selectTargetModel env bestAvailable targetProvider model
      in
      if fallbackMode then
        (case promiseAll (map (\<lambda>a. Some (processAgent agents promptGenerator now (name a) userRequest context presetName)) agents) of
           None \<Rightarrow> None
         | Some (Inl e) \<Rightarrow> Some (Inl e)
         | Some (Inr agentPrompts) \<Rightarrow>
             Some (Inr \<lparr> responses = map (fallbackResponse now) agentPrompts, spawned = [] \<rparr>))
      else if \<not> truthy targetProvider then
        Some (Inl (ConfigurationError (js ''No available LLM provider'')))
      else
        (case promiseAll (map (\<lambda>a. Some (processAgent agents promptGenerator now (name a) userRequest context presetName)) agents) of
           None \<Rightarrow> None
         | Some (Inl e) \<Rightarrow> Some (Inl e)
         | Some (Inr agentPrompts) \<Rightarrow>
            (case promiseAll
                    (map (\<lambda>(index, agentPrompt).
                            map_option (\<lambda>outcome. Inr (workerResponse now agentPrompt outcome))
                              (processAgentWithWorker 120000 (runs index)))
                         (enumerate 0 agentPrompts)) of
               None \<Rightarrow> None
             | Some (Inl e) \<Rightarrow> Some (Inl e)
             | Some (Inr agentResponses) \<Rightarrow>
                 Some (Inr \<lparr> responses = agentResponses,
                             spawned =
                               map (workerDataOf (case targetProvider of Some p \<Rightarrow> p | None \<Rightarrow> []) targetModel)
                                   agentPrompts \<rparr>))))"

section \<open>JavaScript values and objects\<close>

text \<open>
  The values that a synthesis object holds: what the aggregator writes itself (strings,
  \<open>null\<close>, \<open>true\<close>, arrays of strings) and whatever \<open>JSON.parse\<close> returned for the judge's
  verdict. No code of the repository inspects a number.
\<close>

datatype js_value =
    Undefined
  | Null
  | Bool bool
  | Num int
  | Str jstring
  | Arr "js_value list"
  | Obj "(jstring \<times> js_value) list"

text \<open>
  An object is the list of its own properties in the order of \<open>Object.entries\<close>. Assigning
  to a property that exists keeps its place, a new property goes last. (JavaScript lists
  property names that are array indices first; agent names are not numerals.)
\<close>

fun setProp :: "jstring \<Rightarrow> 'v \<Rightarrow> (jstring \<times> 'v) list \<Rightarrow> (jstring \<times> 'v) list" where
  "setProp k v [] = [(k, v)]"
| "setProp k v (p # ps) = (if fst p = k then (k, v) # ps else p # setProp k v ps)"

definition getProp :: "(jstring \<times> js_value) list \<Rightarrow> jstring \<Rightarrow> js_value" where
  "getProp obj k = (case map_of obj k of Some v \<Rightarrow> v | None \<Rightarrow> Undefined)"

text \<open>\<open>{...parsed}\<close>: the own properties of an object; a primitive has none.\<close>

fun spread :: "js_value \<Rightarrow> (jstring \<times> js_value) list" where
  "spread (Obj ps) = ps"
| "spread (Arr xs) = map (\<lambda>(i, x). (showNat i, x)) (enumerate 0 xs)"
| "spread (Str s) = map (\<lambda>(i, c). (showNat i, Str [c])) (enumerate 0 s)"
| "spread v = []"

fun falsy :: "js_value \<Rightarrow> bool" where
  "falsy Undefined = True"
| "falsy Null = True"
| "falsy (Bool b) = (\<not> b)"
| "falsy (Num n) = (n = 0)"
| "falsy (Str s) = (s = [])"
| "falsy v = False"

definition jsOr :: "js_value \<Rightarrow> js_value \<Rightarrow> js_value" where
  "jsOr a b = (if falsy a then b else a)"

section \<open>Aggregation engine: the committee aggregator\<close>

type_synonym agent_outputs = "(jstring \<times> jstring) list"

subsection \<open>\<open>createAggregatorAgent\<close>\<close>

record aggregator =
  ag_provider :: jstring
  ag_model :: jstring

text \<open>
  \<open>bestAvailable p\<close> is what \<open>getBestAvailableModel\<close> of provider \<open>p\<close> answers, \<open>None\<close> when it
  throws. The \<open>catch\<close> of \<open>createAggregatorAgent\<close> names its parameter \<open>error\<close> and then calls
  \<open>error(...)\<close>, the caught object and not the logger: that call throws a \<open>TypeError\<close>.
\<close>

definition createAggregatorAgent ::
  "process_env \<Rightarrow> (jstring \<Rightarrow> jstring option) \<Rightarrow> jstring option \<Rightarrow> jstring option
   \<Rightarrow> js_error + aggregator option" where
  "createAggregatorAgent env bestAvailable provider model =
     (case orElse provider (getDefaultProvider env) of
        None \<Rightarrow> Inr None
      | Some targetProvider \<Rightarrow>
         (if targetProvider = [] then Inr None
          else
            (case getApiKey env targetProvider of
               None \<Rightarrow> Inr None
             | Some apiKey \<Rightarrow>
                (if truthy model then
                   (if targetProvider \<in> set [OPENAI, ANTHROPIC, GEMINI] then
                      Inr (Some \<lparr> ag_provider = targetProvider,
                                  ag_model = (case model of Some m \<Rightarrow> m | None \<Rightarrow> []) \<rparr>)
                    else Inr None)
                 else if targetProvider \<in> set [OPENAI, ANTHROPIC, GEMINI] then
                   (case bestAvailable targetProvider of
                      None \<Rightarrow> Inl (TypeError (js ''error is not a function''))
                    | Some targetModel \<Rightarrow>
                       (if targetModel = [] then Inr None
                        else Inr (Some \<lparr> ag_provider = targetProvider, ag_model = targetModel \<rparr>)))
                 else Inr None))))"

subsection \<open>\<open>generateAggregatorPrompt\<close>\<close>

definition generateAggregatorPrompt :: "agent_outputs \<Rightarrow> jstring \<Rightarrow> jstring" where
  "generateAggregatorPrompt agentOutputs originalRequest =
     (let agentList =
            join [nl] (map (\<lambda>(agentName, response). (js ''=== '') @ agentName @ js '' ==='' @ [nl] @ response @ [nl])
                           agentOutputs)
      in (js ''You are an unbiased Committee Aggregator Agent. Your role is to evaluate all agent outputs and synthesize a comprehensive final result.'')
         @ [nl, nl] @ js ''Original Request: '' @ originalRequest
         @ [nl, nl] @ js ''Agent Outputs:'' @ [nl] @ agentList
         @ [nl, nl] @ js ''Your Task:'' @ [nl]
         @ js ''1. Review ALL agent outputs above objectively'' @ [nl]
         @ js ''2. Evaluate the reasoning quality of each agent'' @ [nl]
         @ js ''3. Identify the best insights from each agent'' @ [nl]
         @ js ''4. Synthesize a comprehensive final result that combines the best ideas'' @ [nl]
         @ js ''5. Remain completely unbiased - evaluate based on merit only'' @ [nl]
         @ js ''6. Do NOT favor any specific agent'' @ [nl, nl]
         @ js ''Provide your final judgment in this format:'' @ [nl]
         @ js ''{'' @ [nl]
         @ js ''  '' @ [34] @ js ''winner'' @ [34] @ js '': '' @ [34] @ js ''<agent_name>'' @ [34] @ js '','' @ [nl]
         @ js ''  '' @ [34] @ js ''synthesis'' @ [34] @ js '': '' @ [34] @ js ''<comprehensive merged result>'' @ [34] @ js '','' @ [nl]
         @ js ''  '' @ [34] @ js ''recommendations'' @ [34] @ js '': ['' @ [34] @ js ''<action item 1>'' @ [34] @ js '', '' @ [34] @ js ''<action item 2>'' @ [34] @ js '', ...],'' @ [nl]
         @ js ''  '' @ [34] @ js ''finalCode'' @ [34] @ js '': '' @ [34] @ js ''<final code implementation if applicable>'' @ [34] @ [nl]
         @ js ''}'' @ [nl, nl]
         @ (js ''Be concise and focused. Prioritize actionable recommendations.''))"

subsection \<open>\<open>heuristicScoring\<close>\<close>

definition actionableKeywords :: "jstring list" where
  "actionableKeywords =
     [(js ''implement''), js ''recommend'', js ''suggest'', js ''should'', js ''consider'', js ''use'', js ''create'']"

definition scoreOf :: "jstring \<Rightarrow> nat" where
  "scoreOf response =
     (let responseLower = toLowerCase response;
          len = length response;
          keywordCount = length (filter (\<lambda>kw. includes_str responseLower kw) actionableKeywords)
      in (if 200 < len \<and> len < 2000 then 2 else if 50 < len then 1 else 0)
         + (if includes_str response (js ''-'') \<or> includes_str response (js ''*'') then 1 else 0)
         + (if includes_str response (js ''```'') then 1 else 0)
         + (if includes_str response [nl, nl] then 1 else 0)
         + min keywordCount 3)"

text \<open>The \<open>scores\<close> object after the loop over the entries.\<close>

definition scoresOf :: "agent_outputs \<Rightarrow> (jstring \<times> nat) list" where
  "scoresOf outputs = foldl (\<lambda>scores (agentName, response). setProp agentName (scoreOf response) scores) [] outputs"

text \<open>\<open>scores[a[0]] > scores[b[0]]\<close>; a comparison with \<open>undefined\<close> is false.\<close>

definition scoreGreater :: "(jstring \<times> nat) list \<Rightarrow> jstring \<Rightarrow> jstring \<Rightarrow> bool" where
  "scoreGreater scores a b =
     (case (map_of scores a, map_of scores b) of
        (Some x, Some y) \<Rightarrow> x > y
      | _ \<Rightarrow> False)"

text \<open>\<open>reduce\<close> without an initial value: a \<open>TypeError\<close> on the empty array.\<close>

definition reduce :: "('a \<Rightarrow> 'a \<Rightarrow> 'a) \<Rightarrow> 'a list \<Rightarrow> js_error + 'a" where
  "reduce f xs =
     (case xs of
        [] \<Rightarrow> Inl (TypeError (js ''Reduce of empty array with no initial value''))
      | x # rest \<Rightarrow> Inr (foldl f x rest))"

definition heuristicScoring :: "agent_outputs \<Rightarrow> js_error + (jstring \<times> js_value) list" where
  "heuristicScoring agentOutputs =
     (let scores = scoresOf agentOutputs in
      case reduce (\<lambda>a b. if scoreGreater scores (fst a) (fst b) then a else b) scores of
        Inl e \<Rightarrow> Inl e
      | Inr w \<Rightarrow>
          Inr [(js ''winner'', Str (fst w)),
               (js ''synthesis'',
                  Str (join [nl, nl]
                        (map (\<lambda>(name, response). (js ''['') @ name @ js '']: '' @ take 300 response @ (js ''...''))
                             agentOutputs))),
               (js ''recommendations'',
                  Arr [Str (js ''Review all agent outputs''), Str (js ''Implement best practices from winner'')]),
               (js ''finalCode'', Null),
               (js ''method'', Str (js ''heuristic''))])"

subsection \<open>The judged path\<close>

text \<open>\<open>isRateLimit\<close> of the \<open>catch\<close>: the message signature of a rate-limit failure.\<close>

definition isRateLimit :: "jstring \<Rightarrow> bool" where
  "isRateLimit m =
     (m \<noteq> [] \<and>
      (includes_str m (js ''429'')
       \<or> includes_str (toLowerCase m) (js ''rate limit'')
       \<or> includes_str (toLowerCase m) (js ''requests per min'')))"

text \<open>\<open>\d\<close>: the ten ASCII digits.\<close>

definition isDigit :: "nat \<Rightarrow> bool" where
  "isDigit c = (48 \<le> c \<and> c \<le> 57)"

text \<open>
  \<open>message.match(/try again in (\d+)s/i)\<close>, the captured digits of the leftmost match.
  At one position the phrase is compared without regard to case, \<open>\d+\<close> takes the whole
  run of digits, and the next character must be \<open>s\<close> or \<open>S\<close> (giving back digits would leave
  a digit in that place, so there is nothing to backtrack to).
\<close>

definition tryAgainHere :: "jstring \<Rightarrow> jstring option" where
  "tryAgainHere s =
     (if startsWith (map foldUnit s) (js ''try again in '') then
        (let rest = drop 13 s; digits = takeWhile isDigit rest; after = dropWhile isDigit rest in
         if digits \<noteq> [] \<and> after \<noteq> [] \<and> foldUnit (hd after) = cu CHR ''s'' then Some digits
         else None)
      else None)"

fun tryAgainMatch :: "jstring \<Rightarrow> jstring option" where
  "tryAgainMatch [] = None"
| "tryAgainMatch (c # cs) =
     (case tryAgainHere (c # cs) of Some d \<Rightarrow> Some d | None \<Rightarrow> tryAgainMatch cs)"

text \<open>
  Numbers. A JavaScript number is a double: a natural number up to \<open>2^53\<close> is held exactly,
  and a product whose exact value is at most \<open>2^53\<close> is computed exactly. Above that bound
  \<open>parseInt\<close> and the products round; \<open>Large\<close> stands for such a double, at least \<open>2^53\<close>,
  whose value the model does not give.
\<close>

datatype js_number = Exact nat | Large

definition maxExact :: nat where
  "maxExact = 2 ^ 53"

definition number :: "nat \<Rightarrow> js_number" where
  "number n = (if n \<le> maxExact then Exact n else Large)"

fun multiply :: "js_number \<Rightarrow> nat \<Rightarrow> js_number" where
  "multiply (Exact a) k = number (a * k)"
| "multiply Large k = Large"

text \<open>\<open>parseInt\<close> of a string of decimal digits.\<close>

definition digitValue :: "nat \<Rightarrow> nat" where
  "digitValue c = c - 48"

definition parseInt :: "jstring \<Rightarrow> js_number" where
  "parseInt ds = number (foldl (\<lambda>n c. 10 * n + digitValue c) 0 ds)"

text \<open>The delay slept before attempt \<open>attempt > 0\<close>, in milliseconds.\<close>

definition baseDelay :: "jstring option \<Rightarrow> js_number" where
  "baseDelay lastError =
     (case lastError of
        None \<Rightarrow> Exact 20000
      | Some m \<Rightarrow>
         (if m = [] then Exact 20000
          else (case tryAgainMatch m of Some d \<Rightarrow> multiply (parseInt d) 1000 | None \<Rightarrow> Exact 20000)))"

definition retryDelay :: "jstring option \<Rightarrow> nat \<Rightarrow> js_number" where
  "retryDelay lastError attempt = multiply (baseDelay lastError) attempt"

text \<open>
  What the specification calls a message that carries a retry-after hint: somewhere in it
  stands \<open>try again in\<close> and a blank, in any case, then one digit or more, then \<open>s\<close> or \<open>S\<close>.
\<close>

definition carriesHint :: "jstring \<Rightarrow> bool" where
  "carriesHint m =
     (\<exists>pre p ds c post.
        m = pre @ p @ ds @ c # post
        \<and> map foldUnit p = js ''try again in ''
        \<and> ds \<noteq> [] \<and> list_all isDigit ds
        \<and> foldUnit c = cu CHR ''s'')"

text \<open>
  \<open>response.match(/\{[\s\S]*\}/)\<close>: from the first \<open>{\<close> to the last \<open>}\<close> after it.
\<close>

definition jsonMatch :: "jstring \<Rightarrow> jstring option" where
  "jsonMatch response =
     (let fromBrace = dropWhile (\<lambda>c. c \<noteq> (cu CHR ''{'')) response in
      if fromBrace = [] then None
      else if (cu CHR ''}'') \<in> set (tl fromBrace) then
        Some ((cu CHR ''{'') # rev (dropWhile (\<lambda>c. c \<noteq> (cu CHR ''}'')) (rev (tl fromBrace))))
      else None)"

text \<open>\<open>Object.keys(agentOutputs)[0]\<close>.\<close>

definition firstKey :: "agent_outputs \<Rightarrow> js_value" where
  "firstKey agentOutputs = (case agentOutputs of [] \<Rightarrow> Undefined | p # ps \<Rightarrow> Str (fst p))"

text \<open>
  What is returned for a reply of the judge. \<open>parse\<close> is \<open>JSON.parse\<close>, \<open>None\<close> when it throws.
\<close>

definition judgedResult ::
  "(jstring \<Rightarrow> js_value option) \<Rightarrow> jstring \<Rightarrow> agent_outputs \<Rightarrow> jstring \<Rightarrow> (jstring \<times> js_value) list" where
  "judgedResult parse now agentOutputs response =
     (let asSynthesis =
            [(js ''winner'', firstKey agentOutputs),
             (js ''synthesis'', Str response),
             (js ''recommendations'',
                Arr [Str (js ''Review the synthesis above''), Str (js ''Implement based on agent recommendations'')]),
             (js ''finalCode'', Null),
             (js ''method'', Str (js ''llm'')),
             (js ''timestamp'', Str now)]
      in case jsonMatch response of
           None \<Rightarrow> asSynthesis
         | Some text \<Rightarrow>
            (case parse text of
               None \<Rightarrow> asSynthesis
             | Some parsed \<Rightarrow>
                 setProp (js ''timestamp'') (Str now) (setProp (js ''method'') (Str (js ''llm'')) (spread parsed))))"

text \<open>
  The retry loop. \<open>judge attempt prompt\<close> is what \<open>aggregatorAgent.process(prompt)\<close> does at
  that attempt: the reply, or the message of the error it throws. The record counts the calls of
  \<open>process\<close> and lists the values of \<open>retryDelay\<close> handed to \<open>setTimeout\<close>, in order; \<open>verdict = None\<close> is the loop left
  without a \<open>return\<close>.
\<close>

record judged =
  verdict :: "(jstring \<times> js_value) list option"
  judgeCalls :: nat
  delays :: "js_number list"

definition maxRetries :: nat where
  "maxRetries = 2"

function judgedLoop ::
  "(nat \<Rightarrow> jstring \<Rightarrow> jstring + jstring) \<Rightarrow> (jstring \<Rightarrow> js_value option) \<Rightarrow> jstring \<Rightarrow> agent_outputs
   \<Rightarrow> jstring \<Rightarrow> nat \<Rightarrow> jstring option \<Rightarrow> judged" where
  "judgedLoop judge parse now agentOutputs originalRequest attempt lastError =
     (if attempt \<le> maxRetries then
        (let slept = (if attempt > 0 then [retryDelay lastError attempt] else []) in
         case judge attempt (generateAggregatorPrompt agentOutputs originalRequest) of
           Inr response \<Rightarrow>
             \<lparr> verdict = Some (judgedResult parse now agentOutputs response),
               judgeCalls = 1, delays = slept \<rparr>
         | Inl m \<Rightarrow>
             (if isRateLimit m \<and> attempt < maxRetries then
                (let r = judgedLoop judge parse now agentOutputs originalRequest (attempt + 1) (Some m) in
                 r \<lparr> judgeCalls := judgeCalls r + 1, delays := slept @ delays r \<rparr>)
              else \<lparr> verdict = None, judgeCalls = 1, delays = slept \<rparr>))
      else \<lparr> verdict = None, judgeCalls = 0, delays = [] \<rparr>)"
  by pat_completeness auto
termination
  by (relation "measure (\<lambda>(judge, parse, now, agentOutputs, originalRequest, attempt, lastError). 3 - attempt)")
     (auto simp: maxRetries_def)

declare judgedLoop.simps [simp del]

subsection \<open>\<open>aggregate\<close>\<close>

definition isErrorOutput :: "jstring \<Rightarrow> bool" where
  "isErrorOutput output =
     (startsWith output (js ''Error:'')
      \<or> includes_str (toLowerCase output) (js ''api error'')
      \<or> includes_str (toLowerCase output) (js ''failed''))"

definition errorSummary :: "jstring list \<Rightarrow> jstring" where
  "errorSummary allOutputs =
     join [nl] (map (\<lambda>(idx, err). (js ''Agent '') @ showNat (idx + 1) @ js '': '' @ err) (enumerate 0 allOutputs))"

definition errorFallback :: "jstring \<Rightarrow> jstring list \<Rightarrow> (jstring \<times> js_value) list" where
  "errorFallback now allOutputs =
     [(js ''winner'', Null),
      (js ''synthesis'',
         Str ((js ''All agents failed to process the request. Error details:'') @ [nl, nl]
              @ errorSummary allOutputs @ [nl, nl]
              @ (js ''Please check your API keys, quotas, and network connectivity.''))),
      (js ''recommendations'',
         Arr [Str (js ''Check API key configuration and quotas''),
              Str (js ''Verify network connectivity''),
              Str (js ''Review individual agent error messages above''),
              Str (js ''Consider using a different LLM provider if available'')]),
      (js ''finalCode'', Null),
      (js ''method'', Str (js ''error_fallback'')),
      (js ''timestamp'', Str now),
      (js ''allAgentsFailed'', Bool True)]"

text \<open>What \<open>aggregate\<close> returns, with the calls of the judge and the delays it has slept.\<close>

record aggregation =
  synthesisResult :: "(jstring \<times> js_value) list"
  attempts :: nat
  slept :: "js_number list"

definition heuristicFallback ::
  "jstring \<Rightarrow> agent_outputs \<Rightarrow> nat \<Rightarrow> js_number list \<Rightarrow> js_error + aggregation" where
  "heuristicFallback now agentOutputs n ds =
     (case heuristicScoring agentOutputs of
        Inl e \<Rightarrow> Inl e
      | Inr result \<Rightarrow>
          Inr \<lparr> synthesisResult = setProp (js ''timestamp'') (Str now) result, attempts = n, slept = ds \<rparr>)"

definition aggregate ::
  "process_env \<Rightarrow> (jstring \<Rightarrow> jstring option) \<Rightarrow> (nat \<Rightarrow> jstring \<Rightarrow> jstring + jstring)
   \<Rightarrow> (jstring \<Rightarrow> js_value option) \<Rightarrow> jstring \<Rightarrow> agent_outputs \<Rightarrow> jstring \<Rightarrow> jstring option \<Rightarrow> jstring option
   \<Rightarrow> js_error + aggregation" where
  "aggregate env bestAvailable judge parse now agentOutputs originalRequest provider model =
     (if length agentOutputs = 0 then
        Inl (ValidationError (js ''No agent outputs provided for aggregation''))
      else if originalRequest = [] \<or> trimIsEmpty originalRequest then
        Inl (ValidationError (js ''Original request is required and must be a non-empty string''))
      else
        (let allOutputs = map snd agentOutputs;
             allAreErrors = list_all isErrorOutput allOutputs
         in
         if allAreErrors \<and> length allOutputs > 0 then
           Inr \<lparr> synthesisResult = errorFallback now allOutputs, attempts = 0, slept = [] \<rparr>
         else
           (case createAggregatorAgent env bestAvailable provider model of
              Inl e \<Rightarrow> Inl e
            | Inr None \<Rightarrow> heuristicFallback now agentOutputs 0 []
            | Inr (Some aggregatorAgent) \<Rightarrow>
               (let j = judgedLoop judge parse now agentOutputs originalRequest 0 None in
                case verdict j of
                  Some v \<Rightarrow> Inr \<lparr> synthesisResult = v, attempts = judgeCalls j, slept = delays j \<rparr>
                | None \<Rightarrow> heuristicFallback now agentOutputs (judgeCalls j) (delays j)))))"

section \<open>\<open>orchestrateWorkflow\<close>\<close>

text \<open>The loop that collects \<open>agentOutputs\<close> from the result set.\<close>

definition outputOf :: "agent_response \<Rightarrow> jstring" where
  "outputOf response =
     (if success response \<and> truthy (actualResponse response) then
        (case actualResponse response of Some a \<Rightarrow> a | None \<Rightarrow> [])
      else if truthy (error response) then
        (js ''Error: '') @ (case error response of Some e \<Rightarrow> e | None \<Rightarrow> [])
      else prompt response)"

definition collectOutputs :: "agent_response list \<Rightarrow> agent_outputs" where
  "collectOutputs agentResponses =
     foldl (\<lambda>agentOutputs response. setProp (agent response) (outputOf response) agentOutputs)
           [] agentResponses"

text \<open>The synthesis of the \<open>catch\<close> around \<open>aggregate\<close>.\<close>

definition fallbackSynthesis :: "jstring \<Rightarrow> agent_response list \<Rightarrow> (jstring \<times> js_value) list" where
  "fallbackSynthesis now agentResponses =
     [(js ''winner'',
         (case agentResponses of
            [] \<Rightarrow> Str (js ''Unknown'')
          | r # rs \<Rightarrow> jsOr (Str (agent r)) (Str (js ''Unknown'')))),
      (js ''synthesis'', Str (js ''Aggregation failed. Please review individual agent outputs.'')),
      (js ''recommendations'', Arr [Str (js ''Review all agent outputs manually'')]),
      (js ''finalCode'', Null),
      (js ''method'', Str (js ''fallback'')),
      (js ''timestamp'', Str now)]"

text \<open>The \<open>finalSynthesis\<close> of the object returned to the caller.\<close>

definition publish :: "(jstring \<times> js_value) list \<Rightarrow> (jstring \<times> js_value) list" where
  "publish finalSynthesis =
     [(js ''winner'', getProp finalSynthesis (js ''winner'')),
      (js ''synthesis'', getProp finalSynthesis (js ''synthesis'')),
      (js ''recommendations'', jsOr (getProp finalSynthesis (js ''recommendations'')) (Arr [])),
      (js ''finalCode'', jsOr (getProp finalSynthesis (js ''finalCode'')) Null),
      (js ''method'', getProp finalSynthesis (js ''method'')),
      (js ''timestamp'', getProp finalSynthesis (js ''timestamp''))]"

record workflow =
  agentResults :: "agent_response list"
  finalSynthesis :: "(jstring \<times> js_value) list"

definition orchestrateWorkflow ::
  "process_env \<Rightarrow> agent_def list \<Rightarrow> prompt_generator \<Rightarrow> jstring \<Rightarrow> (jstring \<Rightarrow> jstring option)
   \<Rightarrow> (nat \<Rightarrow> worker_run) \<Rightarrow> (nat \<Rightarrow> jstring \<Rightarrow> jstring + jstring) \<Rightarrow> (jstring \<Rightarrow> js_value option)
   \<Rightarrow> jstring \<Rightarrow> jstring \<Rightarrow> jstring \<Rightarrow> jstring option \<Rightarrow> jstring option \<Rightarrow> jstring option \<Rightarrow> jstring option
   \<Rightarrow> (js_error + workflow) option" where
  "orchestrateWorkflow env agents promptGenerator now bestAvailable runs judge parse
       userRequest context agentPreset provider aggregatorProvider model aggregatorModel =
     (case processAllAgents env agents promptGenerator now bestAvailable runs
             userRequest context agentPreset provider model of
        None \<Rightarrow> None
      | Some (Inl e) \<Rightarrow> Some (Inl e)
      | Some (Inr d) \<Rightarrow>
         (let agentResponses = responses d;
              agentOutputs = collectOutputs agentResponses;
              synthesis =
                (case aggregate env bestAvailable judge parse now agentOutputs userRequest
                        aggregatorProvider aggregatorModel of
                   Inr a \<Rightarrow> synthesisResult a
                 | Inl err \<Rightarrow> fallbackSynthesis now agentResponses)
          in Some (Inr \<lparr> agentResults = agentResponses, finalSynthesis = publish synthesis \<rparr>)))"

section \<open>Capability providers\<close>

subsection \<open>\<open>BaseAgent.selectBestModel\<close>\<close>

text \<open>The filter of \<open>selectBestModel\<close>: the names it keeps as chat models.\<close>

definition isChatModel :: "jstring \<Rightarrow> bool" where
  "isChatModel model =
     (let lower = toLowerCase model in
      \<not> includes_str lower (js ''embedding'')
      \<and> \<not> includes_str lower (js ''moderation'')
      \<and> \<not> includes_str lower (js ''whisper'')
      \<and> \<not> includes_str lower (js ''dall-e'')
      \<and> \<not> includes_str lower (js ''tts''))"

text \<open>\<open>/\d/.test(a)\<close>.\<close>

definition hasVersion :: "jstring \<Rightarrow> bool" where
  "hasVersion a = list_ex isDigit a"

definition isPro :: "jstring \<Rightarrow> bool" where
  "isPro a =
     (let aLower = toLowerCase a in
      includes_str aLower (js ''pro'') \<or> includes_str aLower (js ''sonnet'') \<or> includes_str aLower (js ''opus''))"

definition isMini :: "jstring \<Rightarrow> bool" where
  "isMini a =
     (let aLower = toLowerCase a in
      includes_str aLower (js ''mini'') \<or> includes_str aLower (js ''flash'') \<or> includes_str aLower (js ''nano''))"

text \<open>
  The comparator handed to \<open>sort\<close>. Its last resort \<open>a.localeCompare(b)\<close> is the collation of
  the host and a parameter here.
\<close>

definition compareModels :: "(jstring \<Rightarrow> jstring \<Rightarrow> int) \<Rightarrow> jstring \<Rightarrow> jstring \<Rightarrow> int" where
  "compareModels localeCompare a b =
     (if hasVersion a \<and> \<not> hasVersion b then - 1
      else if \<not> hasVersion a \<and> hasVersion b then 1
      else if isPro a \<and> \<not> isPro b then - 1
      else if \<not> isPro a \<and> isPro b then 1
      else if \<not> isMini a \<and> isMini b then - 1
      else if isMini a \<and> \<not> isMini b then 1
      else localeCompare a b)"

text \<open>
  \<open>Array.prototype.sort\<close> with a comparator is a stable sort; it is modelled by the stable
  insertion sort, which puts an element before the first element that does not come
  before it.
\<close>

fun insertBy :: "('a \<Rightarrow> 'a \<Rightarrow> int) \<Rightarrow> 'a \<Rightarrow> 'a list \<Rightarrow> 'a list" where
  "insertBy cmp x [] = [x]"
| "insertBy cmp x (y # ys) = (if cmp x y \<le> 0 then x # y # ys else y # insertBy cmp x ys)"

definition sortBy :: "('a \<Rightarrow> 'a \<Rightarrow> int) \<Rightarrow> 'a list \<Rightarrow> 'a list" where
  "sortBy cmp xs = foldr (insertBy cmp) xs []"

text \<open>
  The rank of a name by the first three criteria of the comparator, the smaller the
  better: a digit in the name before none, a \<open>pro\<close>, \<open>sonnet\<close> or \<open>opus\<close> name before the
  others, a \<open>mini\<close>, \<open>flash\<close> or \<open>nano\<close> name after the others.
\<close>

definition rankKey :: "jstring \<Rightarrow> nat" where
  "rankKey a = (if hasVersion a then 0 else 4) + (if isPro a then 0 else 2) + (if isMini a then 1 else 0)"

text \<open>The array \<open>sorted\<close>: the chat models in ranking order.\<close>

definition rankedModels :: "(jstring \<Rightarrow> jstring \<Rightarrow> int) \<Rightarrow> jstring list \<Rightarrow> jstring list" where
  "rankedModels localeCompare models = sortBy (compareModels localeCompare) (filter isChatModel models)"

definition selectBestModel :: "(jstring \<Rightarrow> jstring \<Rightarrow> int) \<Rightarrow> jstring \<Rightarrow> jstring list \<Rightarrow> jstring" where
  "selectBestModel localeCompare defaultModel models =
     (case models of
        [] \<Rightarrow> defaultModel
      | first # others \<Rightarrow>
         (if length (filter isChatModel models) = 0 then first
          else (case rankedModels localeCompare models of
                  [] \<Rightarrow> first
                | best # rest \<Rightarrow> best)))"

subsection \<open>\<open>GroqAgent\<close>: the input budget\<close>

definition maxInputTokens :: nat where
  "maxInputTokens = 2000"

text \<open>\<open>Math.ceil(text.length / 3)\<close>, and 0 for the empty text.\<close>

definition estimateTokens :: "jstring \<Rightarrow> nat" where
  "estimateTokens text = (if text = [] then 0 else (length text + 2) div 3)"

text \<open>
  The regular expressions of \<open>truncatePrompt\<close>, by name, and \<open>String.prototype.match\<close> on
  them, a parameter of the model: \<open>match p s\<close> is \<open>None\<close> where \<open>s.match(p)\<close> is \<open>null\<close>, and
  otherwise the matched text followed by the captured groups.

  \<^item> \<open>AgentRole\<close>: \<^verbatim>\<open>/AGENT:\s*([^\n\(]+)\s*\(([^\)]+)\)/\<close>
  \<^item> \<open>RoleLine\<close>: \<^verbatim>\<open>/Role:\s*([^\n]+)/\<close>
  \<^item> \<open>AgentName\<close>: \<^verbatim>\<open>/(?:FRONTEND|BACKEND|FULLSTACK)?\s*AGENT:\s*([^\n\(]+)/\<close>
  \<^item> \<open>TaskText\<close>: \<^verbatim>\<open>/Task:\s*([^\n]+(?:\n[^\n]+)*?)(?=\n\n|\n---|$)/s\<close>
  \<^item> \<open>YouAre\<close>: \<^verbatim>\<open>/You are [^\n]+/\<close>
  \<^item> \<open>TaskLine\<close>: \<^verbatim>\<open>/Task: [^\n]+/\<close>
\<close>

datatype pattern = AgentRole | RoleLine | AgentName | TaskText | YouAre | TaskLine

type_synonym matcher = "pattern \<Rightarrow> jstring \<Rightarrow> jstring list option"

definition group :: "jstring list \<Rightarrow> nat \<Rightarrow> jstring" where
  "group m i = (if i < length m then m ! i else [])"

text \<open>\<open>prompt.split('\n')\<close>.\<close>

fun splitLines :: "jstring \<Rightarrow> jstring list" where
  "splitLines [] = [[]]"
| "splitLines (c # cs) =
     (if c = nl then [] # splitLines cs
      else (case splitLines cs of [] \<Rightarrow> [[c]] | l # ls \<Rightarrow> (c # l) # ls))"

text \<open>The agent name and the role that \<open>truncatePrompt\<close> extracts.\<close>

definition extractIdentity :: "matcher \<Rightarrow> jstring \<Rightarrow> jstring \<times> jstring" where
  "extractIdentity match promptText =
     (case match AgentRole promptText of
        Some agentMatch1 \<Rightarrow> (trim (group agentMatch1 1), trim (group agentMatch1 2))
      | None \<Rightarrow>
         (let role = (case match RoleLine promptText of Some roleMatch \<Rightarrow> trim (group roleMatch 1) | None \<Rightarrow> []);
              agentName = (case match AgentName promptText of
                             Some agentNameMatch \<Rightarrow> trim (group agentNameMatch 1)
                           | None \<Rightarrow> [])
          in (agentName, role)))"

definition identityPart :: "jstring \<Rightarrow> jstring \<Rightarrow> jstring" where
  "identityPart agentName roleText =
     (if roleText \<noteq> [] \<or> agentName \<noteq> [] then
        (if agentName \<noteq> [] \<and> roleText \<noteq> [] then
           (js ''You are '') @ agentName @ js '', a '' @ roleText @ js ''.'' @ [nl, nl]
         else if roleText \<noteq> [] then (js ''You are a '') @ roleText @ js ''.'' @ [nl, nl]
         else (js ''You are '') @ agentName @ js ''.'' @ [nl, nl])
      else [])"

definition taskPart :: "matcher \<Rightarrow> jstring \<Rightarrow> jstring" where
  "taskPart match promptText =
     (case match TaskText promptText of
        Some taskMatch \<Rightarrow>
          (let task = trim (group taskMatch 1);
               task = (if length task > 400 then take 397 task @ (js ''...'') else task)
           in (js ''Task: '') @ task @ [nl, nl])
      | None \<Rightarrow>
          (case find (\<lambda>line. includes_str (toLowerCase line) (js ''task:'')
                             \<or> includes_str (toLowerCase line) (js ''request:''))
                     (splitLines promptText) of
             Some line \<Rightarrow> (if length line > 300 then take 297 line @ (js ''...'') else line) @ [nl, nl]
           | None \<Rightarrow> []))"

definition minimalInstructions :: jstring where
  "minimalInstructions =
     (js ''Provide a concise analysis and recommendations. Keep response under 250 tokens.'') @ [nl]"

text \<open>
  \<open>truncatePrompt\<close>. The source computes \<open>estimatedTokens\<close> of the prompt first and never
  reads it: the reduction below runs for every prompt.
\<close>

definition truncatePrompt :: "matcher \<Rightarrow> jstring \<Rightarrow> jstring" where
  "truncatePrompt match promptText =
     (let estimatedTokens = estimateTokens promptText;
          maxChars = (maxInputTokens - 300) * 3;
          identity = extractIdentity match promptText;
          result = identityPart (fst identity) (snd identity) @ taskPart match promptText @ minimalInstructions;
          result = (if length result > maxChars
                    then take (maxChars - 50) result @ [nl] @ js ''[Truncated]''
                    else result);
          finalTokens = estimateTokens result
      in if finalTokens > maxInputTokens then
           (let roleLine = (case match YouAre result of Some m \<Rightarrow> group m 0 | None \<Rightarrow> []);
                taskLine = (case match TaskLine result of Some m \<Rightarrow> group m 0 | None \<Rightarrow> []);
                minimalPrompt = roleLine @ [nl, nl] @ taskLine @ [nl, nl] @ (js ''Provide brief analysis.'');
                minimalTokens = estimateTokens minimalPrompt
            in if minimalTokens \<le> maxInputTokens then minimalPrompt
               else take ((maxInputTokens - 100) * 3) result)
         else result)"

text \<open>
  The request that \<open>GroqAgent.process\<close> posts: the content of its one message and
  \<open>max_tokens\<close>. \<open>maxTokens\<close> is \<open>options.maxTokens || this.options.maxTokens || 256\<close>.
\<close>

record chat_request =
  rq_content :: jstring
  rq_max_tokens :: nat

definition groqRequest :: "matcher \<Rightarrow> nat \<Rightarrow> jstring \<Rightarrow> chat_request" where
  "groqRequest match maxTokens promptText =
     (let truncatedPrompt = truncatePrompt match promptText in
      \<lparr> rq_content = truncatedPrompt, rq_max_tokens = min maxTokens 512 \<rparr>)"

text \<open>A matcher that finds nothing, as on a prompt that holds none of the literals
  \<open>AGENT:\<close>, \<open>Role:\<close>, \<open>Task:\<close> and \<open>You are\<close>.\<close>

definition noMatch :: matcher where
  "noMatch p s = None"

section \<open>Example inputs\<close>

text \<open>A preset of three agents, an environment with one API key, workers that succeed,
  crash and time out, and judges that are rate limited, refused, or answer in prose.\<close>

definition demoAgents :: "agent_def list" where
  "demoAgents =
     [\<lparr> name = js ''ArchitectAgent'', role = js ''System Architect'',
         description = js ''Designs system architecture'', focus = js ''Architecture'' \<rparr>,
      \<lparr> name = js ''PlannerAgent'', role = js ''Project Planner'',
         description = js ''Creates implementation plans'', focus = js ''Planning'' \<rparr>,
      \<lparr> name = js ''CoderAgent'', role = js ''Code Generator'',
         description = js ''Writes code implementations'', focus = js ''Code implementation'' \<rparr>]"

definition demoGenerator :: prompt_generator where
  "demoGenerator a userRequest context = js ''Task: '' @ userRequest"

definition demoEnv :: process_env where
  "demoEnv v = (if v = (js ''OPENAI_API_KEY'') then Some (js ''sk-test'') else None)"

definition demoRuns :: "nat \<Rightarrow> worker_run" where
  "demoRuns i =
     (if i = 0 then
        Events [OnMessage \<lparr> m_success = True, m_agent = js ''ArchitectAgent'',
                            m_response = js ''Use a layered design'', m_error = [],
                            m_timestamp = js ''t1'' \<rparr>,
                OnExit 0]
      else if i = 1 then Events [OnExit 1]
      else Events [])"

definition demoOutputs :: agent_outputs where
  "demoOutputs =
     [(js ''ArchitectAgent'', (js ''- Use refresh tokens'')),
      (js ''PlannerAgent'', (js ''Error: upstream timeout'')),
      (js ''CoderAgent'', (js ''ok''))]"

definition demoErrors :: agent_outputs where
  "demoErrors =
     [(js ''ArchitectAgent'', (js ''Error: upstream timeout'')),
      (js ''PlannerAgent'', (js ''Error: API Error (401): invalid key''))]"

definition demoBest :: "jstring \<Rightarrow> jstring option" where
  "demoBest p = Some (js ''gpt-4o'')"

definition rateLimitedJudge :: "nat \<Rightarrow> jstring \<Rightarrow> jstring + jstring" where
  "rateLimitedJudge attempt p = Inl (js ''API Error (429): Rate limit reached. Please try again in 7s.'')"

definition refusedJudge :: "nat \<Rightarrow> jstring \<Rightarrow> jstring + jstring" where
  "refusedJudge attempt p = Inl (js ''API Error (401): invalid api key'')"

definition proseJudge :: "nat \<Rightarrow> jstring \<Rightarrow> jstring + jstring" where
  "proseJudge attempt p =
     (if attempt = 0 then Inl (js ''API Error (429): Too many requests'')
      else Inr (js ''The architect has the strongest plan.''))"

definition noParse :: "jstring \<Rightarrow> js_value option" where
  "noParse text = None"

section \<open>Properties of the dispatcher\<close>

lemma find_name_in: "a \<in> set agents \<Longrightarrow> \<exists>b. find (\<lambda>x. name x = name a) agents = Some b \<and> name b = name a"
  by (induction agents) auto

lemma processAgent_ok:
  assumes "a \<in> set agents"
  shows "\<exists>ap. processAgent agents pg now (name a) req ctx preset = Inr ap \<and> agent ap = name a"
proof -
  from find_name_in [OF assms] obtain b where "find (\<lambda>x. name x = name a) agents = Some b" by blast
  then show ?thesis by (simp add: processAgent_def getAgentGuidelines_def)
qed

lemma promiseAll_fulfilled:
  "(\<And>x. x \<in> set xs \<Longrightarrow> \<exists>v. f x = Some (Inr v)) \<Longrightarrow>
   \<exists>vs. promiseAll (map f xs) = Some (Inr vs) \<and> map f xs = map (\<lambda>v. Some (Inr v)) vs"
proof (induction xs)
  case Nil then show ?case by simp
next
  case (Cons x xs)
  from Cons.prems [of x] obtain v where v: "f x = Some (Inr v)" by auto
  from Cons.IH Cons.prems obtain vs where
    vs: "promiseAll (map f xs) = Some (Inr vs)" "map f xs = map (\<lambda>v. Some (Inr v)) vs"
    by (meson list.set_intros(2))
  show ?case using v vs by simp
qed

lemma promiseAll_nth:
  assumes "\<And>x. x \<in> set xs \<Longrightarrow> \<exists>v. f x = Some (Inr v)"
  shows "\<exists>vs. promiseAll (map f xs) = Some (Inr vs) \<and> length vs = length xs
           \<and> (\<forall>i<length xs. f (xs ! i) = Some (Inr (vs ! i)))"
proof -
  from promiseAll_fulfilled [of xs f, OF assms] obtain vs where
    vs: "promiseAll (map f xs) = Some (Inr vs)" "map f xs = map (\<lambda>v. Some (Inr v)) vs" by blast
  have len: "length vs = length xs" using vs(2) by (metis length_map)
  have "\<forall>i<length xs. f (xs ! i) = Some (Inr (vs ! i))"
  proof (intro allI impI)
    fix i assume i: "i < length xs"
    then have "map f xs ! i = map (\<lambda>v. Some (Inr v)) vs ! i" using vs(2) by simp
    then show "f (xs ! i) = Some (Inr (vs ! i))" using i len by simp
  qed
  with vs(1) len show ?thesis by blast
qed

lemma prompts_each:
  "\<exists>aps. promiseAll (map (\<lambda>a. Some (processAgent agents pg now (name a) req ctx preset)) agents) = Some (Inr aps)
     \<and> length aps = length agents
     \<and> (\<forall>i<length agents. processAgent agents pg now (name (agents ! i)) req ctx preset = Inr (aps ! i)
            \<and> agent (aps ! i) = name (agents ! i))"
proof -
  let ?f = "\<lambda>a. Some (processAgent agents pg now (name a) req ctx preset)"
  have ok: "\<And>x. x \<in> set agents \<Longrightarrow> \<exists>v. ?f x = Some (Inr v)" using processAgent_ok by blast
  from promiseAll_nth [of agents ?f, OF ok] obtain aps where
    aps: "promiseAll (map ?f agents) = Some (Inr aps)" "length aps = length agents"
         "\<forall>i<length agents. ?f (agents ! i) = Some (Inr (aps ! i))" by blast
  have "\<forall>i<length agents. processAgent agents pg now (name (agents ! i)) req ctx preset = Inr (aps ! i)
            \<and> agent (aps ! i) = name (agents ! i)"
  proof (intro allI impI)
    fix i assume i: "i < length agents"
    with aps(3) have eq: "processAgent agents pg now (name (agents ! i)) req ctx preset = Inr (aps ! i)"
      by simp
    moreover from processAgent_ok [of "agents ! i" agents pg now req ctx preset] i
    obtain ap where "processAgent agents pg now (name (agents ! i)) req ctx preset = Inr ap"
      "agent ap = name (agents ! i)" by auto
    ultimately show "processAgent agents pg now (name (agents ! i)) req ctx preset = Inr (aps ! i)
            \<and> agent (aps ! i) = name (agents ! i)" by simp
  qed
  with aps(1,2) show ?thesis by blast
qed

lemma available_names:
  "p \<in> set (getAvailableProviders env) \<Longrightarrow> p \<in> {OPENAI, ANTHROPIC, GEMINI, GROQ}"
  by (auto simp: getAvailableProviders_def getApiKeys_def split: if_splits)

lemma provider_names_nonempty: "p \<in> {OPENAI, ANTHROPIC, GEMINI, GROQ} \<Longrightarrow> p \<noteq> []"
  by (auto simp: OPENAI_def ANTHROPIC_def GEMINI_def GROQ_def)

lemma default_provider_truthy:
  assumes "\<not> isFallbackMode env"
  shows "truthy (getDefaultProvider env)"
proof -
  let ?av = "getAvailableProviders env"
  from assms have ne: "?av \<noteq> []" by (simp add: isFallbackMode_def)
  then have hd_in: "hd ?av \<in> set ?av" by simp
  then have hd_ne: "hd ?av \<noteq> []" using available_names provider_names_nonempty by blast
  show ?thesis
  proof (cases "find (\<lambda>p. p \<in> set ?av) [GEMINI, GROQ, ANTHROPIC, OPENAI]")
    case None
    then show ?thesis using ne hd_ne by (simp add: getDefaultProvider_def Let_def truthy_def)
  next
    case (Some p)
    then have "p \<in> set ?av" by (auto split: if_splits)
    then have "p \<noteq> []" using available_names provider_names_nonempty by blast
    then show ?thesis using ne hd_ne Some by (simp add: getDefaultProvider_def Let_def truthy_def)
  qed
qed

lemma target_provider_truthy:
  "\<not> isFallbackMode env \<Longrightarrow> truthy (orElse provider (getDefaultProvider env))"
  by (simp add: orElse_def default_provider_truthy)

text \<open>The first settlement wins: a settled promise ignores every later signal.\<close>

lemma onEvent_settled: "st \<noteq> Pending \<Longrightarrow> onEvent st ev = st"
  by (cases ev) (simp_all add: resolveOnce_def rejectOnce_def)

lemma foldl_onEvent_settled: "st \<noteq> Pending \<Longrightarrow> foldl onEvent st evs = st"
  by (induction evs) (simp_all add: onEvent_settled)

lemma onTimeout_settled: "st \<noteq> Pending \<Longrightarrow> onTimeout t st = st"
  by (simp add: onTimeout_def rejectOnce_def)

lemma onEvent_settles: "onEvent Pending ev \<noteq> Pending"
  by (cases ev) (simp_all add: resolveOnce_def rejectOnce_def)

lemma worker_first_event:
  "processAgentWithWorker t (Events (ev # rest)) = awaited (onEvent Pending ev)"
  using onEvent_settles [of ev]
  by (simp add: processAgentWithWorker_def foldl_onEvent_settled onTimeout_settled)

lemma worker_no_event:
  "processAgentWithWorker t (Events []) =
     Some (Inl (TimeoutError (js ''Worker timeout after '' @ showNat t @ js ''ms'')))"
  by (simp add: processAgentWithWorker_def onTimeout_def rejectOnce_def awaited_def)

lemma worker_create_fails:
  "processAgentWithWorker t (CreateFails m) =
     Some (Inl (WorkerError (js ''Failed to create worker: '' @ m)))"
  by (simp add: processAgentWithWorker_def rejectOnce_def awaited_def)

lemma worker_settles: "\<exists>outcome. processAgentWithWorker t run = Some outcome"
proof (cases run)
  case (CreateFails m)
  then show ?thesis by (simp add: worker_create_fails)
next
  case (Events evs)
  show ?thesis
  proof (cases evs)
    case Nil
    with Events show ?thesis by (simp add: worker_no_event)
  next
    case (Cons ev rest)
    with Events onEvent_settles [of ev] show ?thesis
      by (cases "onEvent Pending ev") (simp_all add: worker_first_event awaited_def)
  qed
qed

lemma fallbackResponse_fields:
  "agent (fallbackResponse now ap) = agent ap"
  "success (fallbackResponse now ap) = True"
  "fallbackMode (fallbackResponse now ap) = True"
  "error (fallbackResponse now ap) = None"
  by (cases ap; simp add: fallbackResponse_def agent_prompt.defs agent_response.defs)+

lemma workerResponse_agent: "agent (workerResponse now ap outcome) = agent ap"
  by (cases ap) (simp add: workerResponse_def Let_def agent_prompt.defs agent_response.defs split: sum.splits)

lemma workerResponse_rejected:
  "success (workerResponse now ap (Inl (WorkerError m))) = False"
  "actualResponse (workerResponse now ap (Inl (WorkerError m))) = None"
  "error (workerResponse now ap (Inl (WorkerError m))) = Some m"
  "success (workerResponse now ap (Inl (TimeoutError m))) = False"
  "actualResponse (workerResponse now ap (Inl (TimeoutError m))) = None"
  "error (workerResponse now ap (Inl (TimeoutError m))) = Some m"
  by (cases ap; simp add: workerResponse_def Let_def agent_prompt.defs agent_response.defs)+

lemma workerResponse_resolved:
  "success (workerResponse now ap (Inr r)) = r_success r"
  "actualResponse (workerResponse now ap (Inr r)) = (if r_success r then r_response r else None)"
  "error (workerResponse now ap (Inr r)) = (if r_success r then None else r_error r)"
  by (cases ap; simp add: workerResponse_def Let_def agent_prompt.defs agent_response.defs)+

lemma showNat_deadline: "showNat 120000 = js ''120000''"
  by (simp add: showNat.simps digitChar_def)

text \<open>
  Claim C1. Whatever happens to the workers, \<open>processAllAgents\<close> returns, and its result
  set has exactly one entry per task definition, in the order of the task definitions.
  Outside fallback mode the entry of a task is decided by the first signal of its worker:
  a success message gives an entry with the response; a failure message, an error event,
  an exit before any message, the deadline, or a worker that cannot be created give an
  error-shaped entry (\<open>success = false\<close>, no response, the error message of that signal).
\<close>

theorem processAllAgents_complete:
  "\<exists>d. processAllAgents env agents pg now best runs req ctx preset provider model = Some (Inr d)
     \<and> length (responses d) = length agents
     \<and> map agent (responses d) = map name agents
     \<and> (\<not> isFallbackMode env \<longrightarrow>
          (\<forall>i<length agents.
             (let r = responses d ! i in
              case runs i of
                CreateFails m \<Rightarrow>
                  \<not> success r \<and> actualResponse r = None
                  \<and> error r = Some (js ''Failed to create worker: '' @ m)
              | Events [] \<Rightarrow>
                  \<not> success r \<and> actualResponse r = None
                  \<and> error r = Some (js ''Worker timeout after 120000ms'')
              | Events (OnMessage msg # rest) \<Rightarrow>
                  (if m_success msg
                   then success r \<and> actualResponse r = Some (m_response msg) \<and> error r = None
                   else \<not> success r \<and> actualResponse r = None \<and> error r = Some (m_error msg))
              | Events (OnError m # rest) \<Rightarrow>
                  \<not> success r \<and> actualResponse r = None \<and> error r = Some (js ''Worker error: '' @ m)
              | Events (OnExit code # rest) \<Rightarrow>
                  \<not> success r \<and> actualResponse r = None
                  \<and> error r = Some (if code \<noteq> 0 then js ''Worker stopped with exit code '' @ showInt code
                                    else js ''Worker exited without sending a message''))))"
proof -
  obtain aps where aps:
    "promiseAll (map (\<lambda>a. Some (processAgent agents pg now (name a) req ctx preset)) agents) = Some (Inr aps)"
    "length aps = length agents"
    "\<forall>i<length agents. agent (aps ! i) = name (agents ! i)"
    using prompts_each by blast
  have names: "map agent aps = map name agents"
    by (rule nth_equalityI) (use aps in auto)
  show ?thesis
  proof (cases "isFallbackMode env")
    case True
    then show ?thesis using aps names
      by (simp add: processAllAgents_def Let_def fallbackResponse_fields comp_def)
  next
    case False
    let ?f = "\<lambda>(index, agentPrompt).
                 map_option (\<lambda>outcome. Inr (workerResponse now agentPrompt outcome) :: js_error + agent_response)
                   (processAgentWithWorker 120000 (runs index))"
    let ?xs = "enumerate 0 aps"
    have ok: "\<And>x. x \<in> set ?xs \<Longrightarrow> \<exists>v. ?f x = Some (Inr v)"
    proof -
      fix x assume "x \<in> set ?xs"
      obtain index ap where x: "x = (index, ap)" by (cases x)
      from worker_settles [of 120000 "runs index"] obtain outcome where
        "processAgentWithWorker 120000 (runs index) = Some outcome" by blast
      then show "\<exists>v. ?f x = Some (Inr v)" using x by simp
    qed
    have "\<exists>rs. promiseAll (map ?f ?xs) = Some (Inr rs) \<and> length rs = length ?xs
              \<and> (\<forall>i<length ?xs. ?f (?xs ! i) = Some (Inr (rs ! i)))"
      by (rule promiseAll_nth) (rule ok)
    then obtain rs where rs0:
      "promiseAll (map ?f ?xs) = Some (Inr rs) \<and> length rs = length ?xs
         \<and> (\<forall>i<length ?xs. ?f (?xs ! i) = Some (Inr (rs ! i)))" ..
    have rs: "promiseAll (map ?f ?xs) = Some (Inr rs)" "length rs = length ?xs"
      "\<forall>i<length ?xs. ?f (?xs ! i) = Some (Inr (rs ! i))"
      using rs0 by (rule conjunct1, rule conjunct1 [OF conjunct2], rule conjunct2 [OF conjunct2])
    have len: "length rs = length agents" using rs(2) aps(2) by simp
    have nth: "\<And>i. i < length agents \<Longrightarrow>
        map_option (\<lambda>outcome. Inr (workerResponse now (aps ! i) outcome))
           (processAgentWithWorker 120000 (runs i)) = Some (Inr (rs ! i) :: js_error + agent_response)"
    proof -
      fix i assume i: "i < length agents"
      then have "?f (?xs ! i) = Some (Inr (rs ! i))" using rs(3) aps(2) by simp
      moreover have "?xs ! i = (i, aps ! i)" using i aps(2) by (simp add: nth_enumerate_eq)
      ultimately show "map_option (\<lambda>outcome. Inr (workerResponse now (aps ! i) outcome))
           (processAgentWithWorker 120000 (runs i)) = Some (Inr (rs ! i) :: js_error + agent_response)"
        by simp
    qed
    have entry: "\<And>i. i < length agents \<Longrightarrow>
        \<exists>outcome. processAgentWithWorker 120000 (runs i) = Some outcome
                \<and> rs ! i = workerResponse now (aps ! i) outcome"
    proof -
      fix i assume i: "i < length agents"
      from nth [OF i] show "\<exists>outcome. processAgentWithWorker 120000 (runs i) = Some outcome
                \<and> rs ! i = workerResponse now (aps ! i) outcome"
        by (cases "processAgentWithWorker 120000 (runs i)") auto
    qed
    have a: "map agent rs = map name agents"
    proof (rule nth_equalityI)
      show "length (map agent rs) = length (map name agents)" using len by simp
    next
      fix i assume "i < length (map agent rs)"
      then have i: "i < length agents" using len by simp
      from entry [OF i] obtain outcome where "rs ! i = workerResponse now (aps ! i) outcome" by blast
      then show "map agent rs ! i = map name agents ! i"
        using i len aps(3) by (simp add: workerResponse_agent)
    qed
    have b: "\<forall>i<length agents.
             (let r = rs ! i in
              case runs i of
                CreateFails m \<Rightarrow>
                  \<not> success r \<and> actualResponse r = None
                  \<and> error r = Some (js ''Failed to create worker: '' @ m)
              | Events [] \<Rightarrow>
                  \<not> success r \<and> actualResponse r = None
                  \<and> error r = Some (js ''Worker timeout after 120000ms'')
              | Events (OnMessage msg # rest) \<Rightarrow>
                  (if m_success msg
                   then success r \<and> actualResponse r = Some (m_response msg) \<and> error r = None
                   else \<not> success r \<and> actualResponse r = None \<and> error r = Some (m_error msg))
              | Events (OnError m # rest) \<Rightarrow>
                  \<not> success r \<and> actualResponse r = None \<and> error r = Some (js ''Worker error: '' @ m)
              | Events (OnExit code # rest) \<Rightarrow>
                  \<not> success r \<and> actualResponse r = None
                  \<and> error r = Some (if code \<noteq> 0 then js ''Worker stopped with exit code '' @ showInt code
                                    else js ''Worker exited without sending a message''))"
    proof (intro allI impI)
      fix i assume i: "i < length agents"
      from entry [OF i] obtain outcome where o:
        "processAgentWithWorker 120000 (runs i) = Some outcome"
        "rs ! i = workerResponse now (aps ! i) outcome" by blast
      show "(let r = rs ! i in
              case runs i of
                CreateFails m \<Rightarrow>
                  \<not> success r \<and> actualResponse r = None
                  \<and> error r = Some (js ''Failed to create worker: '' @ m)
              | Events [] \<Rightarrow>
                  \<not> success r \<and> actualResponse r = None
                  \<and> error r = Some (js ''Worker timeout after 120000ms'')
              | Events (OnMessage msg # rest) \<Rightarrow>
                  (if m_success msg
                   then success r \<and> actualResponse r = Some (m_response msg) \<and> error r = None
                   else \<not> success r \<and> actualResponse r = None \<and> error r = Some (m_error msg))
              | Events (OnError m # rest) \<Rightarrow>
                  \<not> success r \<and> actualResponse r = None \<and> error r = Some (js ''Worker error: '' @ m)
              | Events (OnExit code # rest) \<Rightarrow>
                  \<not> success r \<and> actualResponse r = None
                  \<and> error r = Some (if code \<noteq> 0 then js ''Worker stopped with exit code '' @ showInt code
                                    else js ''Worker exited without sending a message''))"
      proof (cases "runs i")
        case (CreateFails m)
        with o(1) have "outcome = Inl (WorkerError (js ''Failed to create worker: '' @ m))"
          by (simp add: worker_create_fails)
        with CreateFails o(2) show ?thesis by (simp add: Let_def workerResponse_rejected)
      next
        case (Events evs)
        show ?thesis
        proof (cases evs)
          case Nil
          with Events o(1) have "outcome = Inl (TimeoutError (js ''Worker timeout after 120000ms''))"
            by (simp add: worker_no_event showNat_deadline)
          with Events Nil o(2) show ?thesis by (simp add: Let_def workerResponse_rejected)
        next
          case (Cons ev rest)
          with Events o(1) have first: "awaited (onEvent Pending ev) = Some outcome"
            by (simp add: worker_first_event)
          show ?thesis
          proof (cases ev)
            case (OnMessage msg)
            with first have
              "outcome = Inr (if m_success msg
                 then \<lparr> r_agent = m_agent msg, r_response = Some (m_response msg),
                        r_error = None, r_timestamp = m_timestamp msg, r_success = True \<rparr>
                 else \<lparr> r_agent = m_agent msg, r_response = None,
                        r_error = Some (m_error msg), r_timestamp = m_timestamp msg,
                        r_success = False \<rparr>)"
              by (simp add: resolveOnce_def awaited_def split: if_splits)
            with Events Cons OnMessage o(2) show ?thesis
              by (simp add: Let_def workerResponse_resolved)
          next
            case (OnError m)
            with first have "outcome = Inl (WorkerError (js ''Worker error: '' @ m))"
              by (simp add: rejectOnce_def awaited_def)
            with Events Cons OnError o(2) show ?thesis
              by (simp add: Let_def workerResponse_rejected)
          next
            case (OnExit code)
            with first have
              "outcome = Inl (WorkerError (if code \<noteq> 0 then js ''Worker stopped with exit code '' @ showInt code
                                    else js ''Worker exited without sending a message''))"
              by (simp add: rejectOnce_def awaited_def split: if_splits)
            with Events Cons OnExit o(2) show ?thesis
              by (simp add: Let_def workerResponse_rejected)
          qed
        qed
      qed
    qed
    have "processAllAgents env agents pg now best runs req ctx preset provider model =
          Some (Inr \<lparr> responses = rs,
                spawned = map (workerDataOf (case orElse provider (getDefaultProvider env) of Some p \<Rightarrow> p | None \<Rightarrow> [])
                  (selectTargetModel env best (orElse provider (getDefaultProvider env)) model)) aps \<rparr>)"
      using False aps(1) rs(1) target_provider_truthy [OF False]
      by (simp add: processAllAgents_def Let_def)
    with a b len show ?thesis by (intro exI [of _ "\<lparr> responses = rs,
                spawned = map (workerDataOf (case orElse provider (getDefaultProvider env) of Some p \<Rightarrow> p | None \<Rightarrow> [])
                  (selectTargetModel env best (orElse provider (getDefaultProvider env)) model)) aps \<rparr>"]) simp
  qed
qed

lemma demoEnv_not_fallback: "\<not> isFallbackMode demoEnv"
  by (simp add: isFallbackMode_def getAvailableProviders_def getApiKeys_def demoEnv_def
      normaliseKey_def keyPresent_def trimIsEmpty_def trim_def isWhiteSpace_def
      OPENAI_def ANTHROPIC_def GEMINI_def GROQ_def)

lemma demoRuns_values:
  "demoRuns 0 = Events [OnMessage \<lparr> m_success = True, m_agent = js ''ArchitectAgent'',
                            m_response = js ''Use a layered design'', m_error = [],
                            m_timestamp = js ''t1'' \<rparr>, OnExit 0]"
  "demoRuns (Suc 0) = Events [OnExit 1]"
  "demoRuns (Suc (Suc 0)) = Events []"
  by (simp_all add: demoRuns_def)

lemma showInt_1: "showInt 1 = js ''1''"
  by (simp add: showInt_def showNat.simps digitChar_def)

theorem processAllAgents_complete_witness:
  "\<not> isFallbackMode demoEnv \<and>
   (\<exists>d. processAllAgents demoEnv demoAgents demoGenerator (js ''t0'') (\<lambda>p. None) demoRuns
            (js ''Build a REST API'') [] (js ''specialized'') None None = Some (Inr d)
      \<and> length (responses d) = 3
      \<and> map agent (responses d) = [js ''ArchitectAgent'', js ''PlannerAgent'', js ''CoderAgent'']
      \<and> success (responses d ! 0)
      \<and> actualResponse (responses d ! 0) = Some (js ''Use a layered design'')
      \<and> \<not> success (responses d ! 1)
      \<and> error (responses d ! 1) = Some (js ''Worker stopped with exit code 1'')
      \<and> \<not> success (responses d ! 2)
      \<and> error (responses d ! 2) = Some (js ''Worker timeout after 120000ms''))"
proof -
  have len: "length demoAgents = 3" by (simp add: demoAgents_def)
  from processAllAgents_complete [of demoEnv demoAgents demoGenerator "js ''t0''" "\<lambda>p. None" demoRuns
      "js ''Build a REST API''" "[]" "js ''specialized''" None None]
  obtain d where d:
    "processAllAgents demoEnv demoAgents demoGenerator (js ''t0'') (\<lambda>p. None) demoRuns
       (js ''Build a REST API'') [] (js ''specialized'') None None = Some (Inr d)"
    "length (responses d) = length demoAgents"
    "map agent (responses d) = map name demoAgents"
    "\<forall>i<length demoAgents.
             (let r = responses d ! i in
              case demoRuns i of
                CreateFails m \<Rightarrow>
                  \<not> success r \<and> actualResponse r = None
                  \<and> error r = Some (js ''Failed to create worker: '' @ m)
              | Events [] \<Rightarrow>
                  \<not> success r \<and> actualResponse r = None
                  \<and> error r = Some (js ''Worker timeout after 120000ms'')
              | Events (OnMessage msg # rest) \<Rightarrow>
                  (if m_success msg
                   then success r \<and> actualResponse r = Some (m_response msg) \<and> error r = None
                   else \<not> success r \<and> actualResponse r = None \<and> error r = Some (m_error msg))
              | Events (OnError m # rest) \<Rightarrow>
                  \<not> success r \<and> actualResponse r = None \<and> error r = Some (js ''Worker error: '' @ m)
              | Events (OnExit code # rest) \<Rightarrow>
                  \<not> success r \<and> actualResponse r = None
                  \<and> error r = Some (if code \<noteq> 0 then js ''Worker stopped with exit code '' @ showInt code
                                    else js ''Worker exited without sending a message''))"
    using demoEnv_not_fallback by blast
  have s0: "success (responses d ! 0) \<and> actualResponse (responses d ! 0) = Some (js ''Use a layered design'')"
    using d(4) [rule_format, of 0] len by (simp add: demoRuns_values Let_def)
  have s1: "\<not> success (responses d ! 1) \<and> error (responses d ! 1) = Some (js ''Worker stopped with exit code 1'')"
    using d(4) [rule_format, of "Suc 0"] len by (simp add: demoRuns_values showInt_1 Let_def)
  have s2: "\<not> success (responses d ! 2) \<and> error (responses d ! 2) = Some (js ''Worker timeout after 120000ms'')"
    using d(4) [rule_format, of "Suc (Suc 0)"] len by (simp add: demoRuns_values Let_def numeral_2_eq_2)
  have names: "map agent (responses d) = [js ''ArchitectAgent'', js ''PlannerAgent'', js ''CoderAgent'']"
    using d(3) by (simp add: demoAgents_def)
  show ?thesis using demoEnv_not_fallback d(1) d(2) len names s0 s1 s2 by simp
qed

text \<open>
  Blank means blank for \<open>trim\<close>: an API key made of a no-break space (U+00A0) is
  normalised to \<open>null\<close>, and with no other key the program is in fallback mode.
\<close>

lemma blank_key_is_fallback_mode:
  "isFallbackMode (\<lambda>v. if v = js ''OPENAI_API_KEY'' then Some [160] else None)"
  by (simp add: isFallbackMode_def getAvailableProviders_def getApiKeys_def normaliseKey_def
      keyPresent_def trimIsEmpty_def trim_def isWhiteSpace_def)

lemma dispatch_total:
  "\<exists>d. processAllAgents env agents pg now best runs req ctx preset provider model = Some (Inr d)"
proof -
  obtain aps where aps:
    "promiseAll (map (\<lambda>a. Some (processAgent agents pg now (name a) req ctx preset)) agents) = Some (Inr aps)"
    using prompts_each by blast
  show ?thesis
  proof (cases "isFallbackMode env")
    case True
    then show ?thesis using aps by (simp add: processAllAgents_def Let_def)
  next
    case False
    let ?f = "\<lambda>(index, agentPrompt).
                 map_option (\<lambda>outcome. Inr (workerResponse now agentPrompt outcome) :: js_error + agent_response)
                   (processAgentWithWorker 120000 (runs index))"
    let ?xs = "enumerate 0 aps"
    have ok: "\<And>x. x \<in> set ?xs \<Longrightarrow> \<exists>v. ?f x = Some (Inr v)"
    proof -
      fix x assume "x \<in> set ?xs"
      obtain index ap where x: "x = (index, ap)" by (cases x)
      from worker_settles [of 120000 "runs index"] obtain outcome where
        "processAgentWithWorker 120000 (runs index) = Some outcome" by blast
      then show "\<exists>v. ?f x = Some (Inr v)" using x by simp
    qed
    have "\<exists>rs. promiseAll (map ?f ?xs) = Some (Inr rs) \<and> map ?f ?xs = map (\<lambda>v. Some (Inr v)) rs"
      by (rule promiseAll_fulfilled) (rule ok)
    then obtain rs where "promiseAll (map ?f ?xs) = Some (Inr rs)" by (elim exE conjE)
    then show ?thesis using False aps target_provider_truthy [OF False]
      by (simp add: processAllAgents_def Let_def)
  qed
qed

lemma fallbackResponse_text:
  "actualResponse (fallbackResponse now ap) =
     Some ((js ''[FALLBACK MODE] This is the generated prompt for '' @ agent ap @ js '':'' @ [nl, nl])
           @ prompt ap
           @ ([nl, nl] @ warningSign
              @ js ''  Note: No LLM API key configured. Set at least one API key in .env to get actual LLM responses.''))"
  by (cases ap) (simp add: fallbackResponse_def agent_prompt.defs agent_response.defs)

text \<open>
  Claim C10. \<open>processAllAgents\<close> never throws the \<open>ConfigurationError\<close> of its
  \<open>No available LLM provider\<close> branch. In fallback mode (no provider has an API key) it
  creates no worker and returns one entry per agent, in order, with \<open>success = true\<close> and a
  response text that embeds the prompt generated for that agent.
\<close>

theorem fallback_mode_returns_prompts:
  "processAllAgents env agents pg now best runs req ctx preset provider model \<noteq> None
   \<and> (\<forall>m. processAllAgents env agents pg now best runs req ctx preset provider model
          \<noteq> Some (Inl (ConfigurationError m)))
   \<and> (isFallbackMode env \<longrightarrow>
        (\<exists>d. processAllAgents env agents pg now best runs req ctx preset provider model = Some (Inr d)
           \<and> spawned d = []
           \<and> length (responses d) = length agents
           \<and> (\<forall>i<length agents.
                 agent (responses d ! i) = name (agents ! i)
               \<and> success (responses d ! i)
               \<and> (\<exists>ap pre post.
                     processAgent agents pg now (name (agents ! i)) req ctx preset = Inr ap
                   \<and> actualResponse (responses d ! i) = Some (pre @ prompt ap @ post)))))"
proof (intro conjI allI impI)
  from dispatch_total [of env agents pg now best runs req ctx preset provider model]
  show "processAllAgents env agents pg now best runs req ctx preset provider model \<noteq> None" by auto
next
  fix m
  from dispatch_total [of env agents pg now best runs req ctx preset provider model]
  show "processAllAgents env agents pg now best runs req ctx preset provider model
          \<noteq> Some (Inl (ConfigurationError m))" by auto
next
  assume fb: "isFallbackMode env"
  obtain aps where aps:
    "promiseAll (map (\<lambda>a. Some (processAgent agents pg now (name a) req ctx preset)) agents) = Some (Inr aps)"
    "length aps = length agents"
    "\<forall>i<length agents. processAgent agents pg now (name (agents ! i)) req ctx preset = Inr (aps ! i)
            \<and> agent (aps ! i) = name (agents ! i)"
    using prompts_each by blast
  let ?d = "\<lparr> responses = map (fallbackResponse now) aps, spawned = [] \<rparr>"
  have run: "processAllAgents env agents pg now best runs req ctx preset provider model = Some (Inr ?d)"
    using fb aps(1) by (simp add: processAllAgents_def Let_def)
  have each: "\<forall>i<length agents.
                 agent (responses ?d ! i) = name (agents ! i)
               \<and> success (responses ?d ! i)
               \<and> (\<exists>ap pre post.
                     processAgent agents pg now (name (agents ! i)) req ctx preset = Inr ap
                   \<and> actualResponse (responses ?d ! i) = Some (pre @ prompt ap @ post))"
  proof (intro allI impI)
    fix i assume i: "i < length agents"
    have emb: "\<exists>pre post. actualResponse (fallbackResponse now (aps ! i)) = Some (pre @ prompt (aps ! i) @ post)"
      using fallbackResponse_text by blast
    show "agent (responses ?d ! i) = name (agents ! i)
               \<and> success (responses ?d ! i)
               \<and> (\<exists>ap pre post.
                     processAgent agents pg now (name (agents ! i)) req ctx preset = Inr ap
                   \<and> actualResponse (responses ?d ! i) = Some (pre @ prompt ap @ post))"
      using i aps(2) aps(3) emb by (simp add: fallbackResponse_fields)
  qed
  show "\<exists>d. processAllAgents env agents pg now best runs req ctx preset provider model = Some (Inr d)
           \<and> spawned d = []
           \<and> length (responses d) = length agents
           \<and> (\<forall>i<length agents.
                 agent (responses d ! i) = name (agents ! i)
               \<and> success (responses d ! i)
               \<and> (\<exists>ap pre post.
                     processAgent agents pg now (name (agents ! i)) req ctx preset = Inr ap
                   \<and> actualResponse (responses d ! i) = Some (pre @ prompt ap @ post)))"
    using run each aps(2) by (intro exI [of _ ?d]) simp
qed

theorem fallback_mode_returns_prompts_witness:
  "isFallbackMode (\<lambda>v. None) \<and>
   (\<exists>d. processAllAgents (\<lambda>v. None) demoAgents demoGenerator (js ''t0'') (\<lambda>p. None) demoRuns
            (js ''Build a REST API'') [] (js ''specialized'') None None = Some (Inr d)
      \<and> spawned d = []
      \<and> length (responses d) = 3
      \<and> agent (responses d ! 0) = js ''ArchitectAgent'' \<and> success (responses d ! 0)
      \<and> agent (responses d ! 2) = js ''CoderAgent'' \<and> success (responses d ! 2))"
proof -
  have fb: "isFallbackMode (\<lambda>v. None)"
    by (simp add: isFallbackMode_def getAvailableProviders_def getApiKeys_def normaliseKey_def
        keyPresent_def)
  have len: "length demoAgents = 3" by (simp add: demoAgents_def)
  from fallback_mode_returns_prompts [of "\<lambda>v. None" demoAgents demoGenerator "js ''t0''" "\<lambda>p. None"
      demoRuns "js ''Build a REST API''" "[]" "js ''specialized''" None None] fb
  obtain d where d:
    "processAllAgents (\<lambda>v. None) demoAgents demoGenerator (js ''t0'') (\<lambda>p. None) demoRuns
       (js ''Build a REST API'') [] (js ''specialized'') None None = Some (Inr d)"
    "spawned d = []"
    "length (responses d) = length demoAgents"
    "\<forall>i<length demoAgents.
        agent (responses d ! i) = name (demoAgents ! i) \<and> success (responses d ! i)"
    by blast
  have a0: "agent (responses d ! 0) = js ''ArchitectAgent'' \<and> success (responses d ! 0)"
    using d(4) len by (simp add: demoAgents_def)
  have a2: "agent (responses d ! 2) = js ''CoderAgent'' \<and> success (responses d ! 2)"
    using d(4) len by (simp add: demoAgents_def)
  show ?thesis using fb d(1) d(2) d(3) len a0 a2 by simp
qed

section \<open>Properties of the aggregator\<close>

lemma map_of_setProp: "map_of (setProp k v ps) = (map_of ps)(k \<mapsto> v)"
  by (induction ps) (auto simp: fun_eq_iff)

lemma getProp_setProp: "getProp (setProp k v ps) k' = (if k' = k then v else getProp ps k')"
  by (simp add: getProp_def map_of_setProp)

lemma trimIsEmpty_Nil: "trimIsEmpty []" by (simp add: trimIsEmpty_def trim_def)

text \<open>
  A request made of a no-break space (U+00A0), a line separator (U+2028) and a byte order
  mark (U+FEFF) is empty after \<open>trim\<close>, and \<open>aggregate\<close> throws.
\<close>

lemma aggregate_blank_unicode_request:
  "agentOutputs \<noteq> [] \<Longrightarrow>
   aggregate env bestAvailable judge parse now agentOutputs [160, 8232, 65279] provider model =
     Inl (ValidationError (js ''Original request is required and must be a non-empty string''))"
  by (simp add: aggregate_def trimIsEmpty_def trim_def isWhiteSpace_def)

text \<open>
  Claim C2, as the code has it. When the outputs are not empty, the request is not blank
  and every output is error-shaped, \<open>aggregate\<close> returns at once, without a call of the
  judge and without a delay: method \<open>error_fallback\<close>, winner \<open>null\<close>, a synthesis that
  lists every error message in order, each labelled \<open>Agent i:\<close>, between a fixed header and
  a fixed footer, and four fixed recommendations.
\<close>

theorem aggregate_error_fallback:
  assumes "agentOutputs \<noteq> []" "\<not> trimIsEmpty originalRequest"
    and "list_all isErrorOutput (map snd agentOutputs)"
  shows "\<exists>a. aggregate env bestAvailable judge parse now agentOutputs originalRequest provider model = Inr a
     \<and> attempts a = 0 \<and> slept a = []
     \<and> getProp (synthesisResult a) (js ''method'') = Str (js ''error_fallback'')
     \<and> getProp (synthesisResult a) (js ''winner'') = Null
     \<and> getProp (synthesisResult a) (js ''synthesis'') =
         Str ((js ''All agents failed to process the request. Error details:'') @ [nl, nl]
              @ join [nl] (map (\<lambda>(idx, err). (js ''Agent '') @ showNat (idx + 1) @ (js '': '') @ err)
                               (enumerate 0 (map snd agentOutputs)))
              @ [nl, nl] @ (js ''Please check your API keys, quotas, and network connectivity.''))
     \<and> (\<exists>r1 r2 r3 r4. getProp (synthesisResult a) (js ''recommendations'') = Arr [Str r1, Str r2, Str r3, Str r4])"
proof -
  from assms(2) have "originalRequest \<noteq> []" using trimIsEmpty_Nil by auto
  with assms have "aggregate env bestAvailable judge parse now agentOutputs originalRequest provider model
      = Inr \<lparr> synthesisResult = errorFallback now (map snd agentOutputs), attempts = 0, slept = [] \<rparr>"
    by (simp add: aggregate_def Let_def)
  then show ?thesis
    by (simp add: errorFallback_def getProp_def errorSummary_def)
qed

lemma judgedLoop_2:
  "judgedLoop judge parse now outs req 2 lastError =
     (case judge 2 (generateAggregatorPrompt outs req) of
        Inr response \<Rightarrow>
          \<lparr> verdict = Some (judgedResult parse now outs response), judgeCalls = 1,
            delays = [retryDelay lastError 2] \<rparr>
      | Inl m \<Rightarrow> \<lparr> verdict = None, judgeCalls = 1, delays = [retryDelay lastError 2] \<rparr>)"
  by (subst judgedLoop.simps) (simp add: maxRetries_def split: sum.splits)

lemma judgedLoop_1:
  "judgedLoop judge parse now outs req (Suc 0) lastError =
     (case judge (Suc 0) (generateAggregatorPrompt outs req) of
        Inr response \<Rightarrow>
          \<lparr> verdict = Some (judgedResult parse now outs response), judgeCalls = 1,
            delays = [retryDelay lastError (Suc 0)] \<rparr>
      | Inl m \<Rightarrow>
          (if isRateLimit m then
             (let r = judgedLoop judge parse now outs req 2 (Some m) in
              r \<lparr> judgeCalls := judgeCalls r + 1, delays := retryDelay lastError (Suc 0) # delays r \<rparr>)
           else \<lparr> verdict = None, judgeCalls = 1, delays = [retryDelay lastError (Suc 0)] \<rparr>))"
  by (subst judgedLoop.simps) (simp add: maxRetries_def numeral_2_eq_2 split: sum.splits)

lemma judgedLoop_0:
  "judgedLoop judge parse now outs req 0 lastError =
     (case judge 0 (generateAggregatorPrompt outs req) of
        Inr response \<Rightarrow>
          \<lparr> verdict = Some (judgedResult parse now outs response), judgeCalls = 1, delays = [] \<rparr>
      | Inl m \<Rightarrow>
          (if isRateLimit m then
             (let r = judgedLoop judge parse now outs req (Suc 0) (Some m) in
              r \<lparr> judgeCalls := judgeCalls r + 1 \<rparr>)
           else \<lparr> verdict = None, judgeCalls = 1, delays = [] \<rparr>))"
  by (subst judgedLoop.simps) (simp add: maxRetries_def split: sum.splits)

lemmas judgedLoop_unfold = judgedLoop_0 judgedLoop_1 judgedLoop_2

lemma judgedLoop_calls_le: "judgeCalls (judgedLoop judge parse now outs req 0 None) \<le> 3"
  by (simp add: judgedLoop_unfold Let_def split: sum.splits)

lemma setProp_nonempty: "setProp k v ps \<noteq> []"
  by (cases ps) auto

lemma scoresOf_nonempty: "outs \<noteq> [] \<Longrightarrow> scoresOf outs \<noteq> []"
proof -
  have "\<And>acc. acc \<noteq> [] \<Longrightarrow>
      foldl (\<lambda>scores (agentName, response). setProp agentName (scoreOf response) scores) acc xs \<noteq> []" for xs
    by (induction xs) (auto simp: setProp_nonempty split: prod.splits)
  then show "outs \<noteq> [] \<Longrightarrow> scoresOf outs \<noteq> []"
    by (cases outs) (auto simp: scoresOf_def setProp_nonempty split: prod.splits)
qed

lemma heuristicScoring_method:
  assumes "outs \<noteq> []"
  shows "\<exists>r. heuristicScoring outs = Inr r \<and> getProp r (js ''method'') = Str (js ''heuristic'')"
proof -
  from scoresOf_nonempty [OF assms] obtain x xs where "scoresOf outs = x # xs"
    by (cases "scoresOf outs") auto
  then show ?thesis by (simp add: heuristicScoring_def reduce_def Let_def getProp_def)
qed

lemma heuristicFallback_method:
  assumes "outs \<noteq> []"
  shows "\<exists>a. heuristicFallback now outs n ds = Inr a \<and> attempts a = n \<and> slept a = ds
           \<and> getProp (synthesisResult a) (js ''method'') = Str (js ''heuristic'')"
proof -
  from heuristicScoring_method [OF assms] obtain r where
    "heuristicScoring outs = Inr r" "getProp r (js ''method'') = Str (js ''heuristic'')" by blast
  then show ?thesis by (simp add: heuristicFallback_def getProp_setProp)
qed

lemma aggregate_judged:
  assumes "agentOutputs \<noteq> []" "\<not> trimIsEmpty originalRequest"
    and "\<not> list_all isErrorOutput (map snd agentOutputs)"
    and "createAggregatorAgent env bestAvailable provider model = Inr (Some ag)"
  shows "aggregate env bestAvailable judge parse now agentOutputs originalRequest provider model =
     (let j = judgedLoop judge parse now agentOutputs originalRequest 0 None in
      case verdict j of
        Some v \<Rightarrow> Inr \<lparr> synthesisResult = v, attempts = judgeCalls j, slept = delays j \<rparr>
      | None \<Rightarrow> heuristicFallback now agentOutputs (judgeCalls j) (delays j))"
proof -
  from assms(2) have "originalRequest \<noteq> []" using trimIsEmpty_Nil by auto
  with assms show ?thesis by (simp add: aggregate_def Let_def)
qed

lemma aggregate_via_loop:
  assumes "agentOutputs \<noteq> []" "\<not> trimIsEmpty originalRequest"
    and "\<not> list_all isErrorOutput (map snd agentOutputs)"
    and "createAggregatorAgent env bestAvailable provider model = Inr (Some ag)"
  shows "\<exists>a. aggregate env bestAvailable judge parse now agentOutputs originalRequest provider model = Inr a
     \<and> attempts a = judgeCalls (judgedLoop judge parse now agentOutputs originalRequest 0 None)
     \<and> slept a = delays (judgedLoop judge parse now agentOutputs originalRequest 0 None)
     \<and> (case verdict (judgedLoop judge parse now agentOutputs originalRequest 0 None) of
           None \<Rightarrow> getProp (synthesisResult a) (js ''method'') = Str (js ''heuristic'')
         | Some v \<Rightarrow> synthesisResult a = v)"
proof (cases "verdict (judgedLoop judge parse now agentOutputs originalRequest 0 None)")
  case None
  from heuristicFallback_method [OF assms(1)] obtain a where
    "heuristicFallback now agentOutputs
       (judgeCalls (judgedLoop judge parse now agentOutputs originalRequest 0 None))
       (delays (judgedLoop judge parse now agentOutputs originalRequest 0 None)) = Inr a"
    "attempts a = judgeCalls (judgedLoop judge parse now agentOutputs originalRequest 0 None)"
    "slept a = delays (judgedLoop judge parse now agentOutputs originalRequest 0 None)"
    "getProp (synthesisResult a) (js ''method'') = Str (js ''heuristic'')" by blast
  with None show ?thesis by (simp add: aggregate_judged [OF assms] Let_def)
next
  case (Some v)
  then show ?thesis by (simp add: aggregate_judged [OF assms] Let_def)
qed

lemma loop_all_rate_limited:
  assumes "judge 0 (generateAggregatorPrompt outs req) = Inl m0" "isRateLimit m0"
    and "judge (Suc 0) (generateAggregatorPrompt outs req) = Inl m1" "isRateLimit m1"
    and "judge 2 (generateAggregatorPrompt outs req) = Inl m2"
  shows "judgedLoop judge parse now outs req 0 None =
           \<lparr> verdict = None, judgeCalls = 3,
             delays = [retryDelay (Some m0) 1, retryDelay (Some m1) 2] \<rparr>"
  using assms by (simp add: judgedLoop_unfold Let_def)

lemma loop_abandon_0:
  assumes "judge 0 (generateAggregatorPrompt outs req) = Inl m0" "\<not> isRateLimit m0"
  shows "judgedLoop judge parse now outs req 0 None = \<lparr> verdict = None, judgeCalls = 1, delays = [] \<rparr>"
  using assms by (simp add: judgedLoop_unfold Let_def)

lemma loop_abandon_1:
  assumes "judge 0 (generateAggregatorPrompt outs req) = Inl m0" "isRateLimit m0"
    and "judge (Suc 0) (generateAggregatorPrompt outs req) = Inl m1" "\<not> isRateLimit m1"
  shows "judgedLoop judge parse now outs req 0 None =
           \<lparr> verdict = None, judgeCalls = 2, delays = [retryDelay (Some m0) 1] \<rparr>"
  using assms by (simp add: judgedLoop_unfold Let_def)

text \<open>
  Claim C3. On the judged path (the outputs are not empty and not all error-shaped, the
  request is not blank, a judge provider exists) \<open>aggregate\<close> calls the judge at most three
  times. When
  every call fails with a rate-limit error it calls exactly three times and returns the
  heuristic result. When the call at attempt \<open>k\<close> fails with an error that is not a
  rate-limit error (the calls before it having been rate limited), no further call is
  made: \<open>k + 1\<close> calls in all, and the heuristic result.
\<close>

theorem judged_path_retries:
  assumes "agentOutputs \<noteq> []" "\<not> trimIsEmpty originalRequest"
    and "\<not> list_all isErrorOutput (map snd agentOutputs)"
    and "createAggregatorAgent env bestAvailable provider model = Inr (Some ag)"
  shows "\<exists>a. aggregate env bestAvailable judge parse now agentOutputs originalRequest provider model = Inr a
     \<and> attempts a \<le> 3
     \<and> ((\<forall>i\<le>2. \<exists>m. judge i (generateAggregatorPrompt agentOutputs originalRequest) = Inl m \<and> isRateLimit m)
          \<longrightarrow> attempts a = 3 \<and> getProp (synthesisResult a) (js ''method'') = Str (js ''heuristic''))
     \<and> (\<forall>k\<le>2. (\<forall>i<k. \<exists>m. judge i (generateAggregatorPrompt agentOutputs originalRequest) = Inl m \<and> isRateLimit m)
               \<and> (\<exists>m. judge k (generateAggregatorPrompt agentOutputs originalRequest) = Inl m \<and> \<not> isRateLimit m)
          \<longrightarrow> attempts a = Suc k \<and> getProp (synthesisResult a) (js ''method'') = Str (js ''heuristic''))"
proof -
  let ?P = "generateAggregatorPrompt agentOutputs originalRequest"
  let ?j = "judgedLoop judge parse now agentOutputs originalRequest 0 None"
  from aggregate_via_loop [OF assms, of judge parse now] obtain a where a:
    "aggregate env bestAvailable judge parse now agentOutputs originalRequest provider model = Inr a"
    "attempts a = judgeCalls ?j"
    "case verdict ?j of None \<Rightarrow> getProp (synthesisResult a) (js ''method'') = Str (js ''heuristic'')
       | Some v \<Rightarrow> synthesisResult a = v"
    by blast
  have bound: "attempts a \<le> 3" using a(2) judgedLoop_calls_le by simp
  have allrl: "attempts a = 3 \<and> getProp (synthesisResult a) (js ''method'') = Str (js ''heuristic'')"
    if h: "\<forall>i\<le>2. \<exists>m. judge i ?P = Inl m \<and> isRateLimit m"
  proof -
    from h obtain m0 where m0: "judge 0 ?P = Inl m0" "isRateLimit m0" by auto
    from h have "\<exists>m. judge (Suc 0) ?P = Inl m \<and> isRateLimit m" by simp
    then obtain m1 where m1: "judge (Suc 0) ?P = Inl m1" "isRateLimit m1" by auto
    from h obtain m2 where m2: "judge 2 ?P = Inl m2" by auto
    from loop_all_rate_limited [where judge = judge and outs = agentOutputs and req = originalRequest
          and parse = parse and now = now, OF m0 m1 m2] a(2) a(3) show ?thesis by simp
  qed
  have abandon: "attempts a = Suc k \<and> getProp (synthesisResult a) (js ''method'') = Str (js ''heuristic'')"
    if k: "k \<le> 2" and before: "\<forall>i<k. \<exists>m. judge i ?P = Inl m \<and> isRateLimit m"
      and at: "\<exists>m. judge k ?P = Inl m \<and> \<not> isRateLimit m" for k
  proof -
    from k consider "k = 0" | "k = Suc 0" | "k = 2" by linarith
    then show ?thesis
    proof cases
      case 1
      with at obtain m0 where "judge 0 ?P = Inl m0" "\<not> isRateLimit m0" by auto
      from loop_abandon_0 [where judge = judge and outs = agentOutputs and req = originalRequest
          and parse = parse and now = now, OF this] a(2) a(3) 1 show ?thesis by simp
    next
      case 2
      with before obtain m0 where m0: "judge 0 ?P = Inl m0" "isRateLimit m0" by auto
      from 2 at obtain m1 where m1: "judge (Suc 0) ?P = Inl m1" "\<not> isRateLimit m1" by auto
      from loop_abandon_1 [where judge = judge and outs = agentOutputs and req = originalRequest
          and parse = parse and now = now, OF m0 m1] a(2) a(3) 2 show ?thesis by simp
    next
      case 3
      from 3 before have "\<exists>m. judge 0 ?P = Inl m \<and> isRateLimit m" by simp
      then obtain m0 where m0: "judge 0 ?P = Inl m0" "isRateLimit m0" by auto
      from 3 before have "\<exists>m. judge (Suc 0) ?P = Inl m \<and> isRateLimit m" by simp
      then obtain m1 where m1: "judge (Suc 0) ?P = Inl m1" "isRateLimit m1" by auto
      from 3 at obtain m2 where m2: "judge 2 ?P = Inl m2" by auto
      from loop_all_rate_limited [where judge = judge and outs = agentOutputs and req = originalRequest
          and parse = parse and now = now, OF m0 m1 m2] a(2) a(3) 3 show ?thesis by simp
    qed
  qed
  from a(1) bound allrl abandon show ?thesis by blast
qed

lemma judgedResult_no_verdict:
  assumes "jsonMatch response = None \<or> (\<exists>text. jsonMatch response = Some text \<and> parse text = None)"
  shows "judgedResult parse now outs response =
           [((js ''winner''), firstKey outs),
            ((js ''synthesis''), Str response),
            ((js ''recommendations''),
               Arr [Str (js ''Review the synthesis above''), Str (js ''Implement based on agent recommendations'')]),
            ((js ''finalCode''), Null),
            ((js ''method''), Str (js ''llm'')),
            ((js ''timestamp''), Str now)]"
  using assms by (auto simp: judgedResult_def Let_def)

lemma loop_reply:
  assumes "k \<le> 2"
    and "\<forall>i<k. \<exists>m. judge i (generateAggregatorPrompt outs req) = Inl m \<and> isRateLimit m"
    and "judge k (generateAggregatorPrompt outs req) = Inr response"
  shows "verdict (judgedLoop judge parse now outs req 0 None) = Some (judgedResult parse now outs response)
       \<and> judgeCalls (judgedLoop judge parse now outs req 0 None) = Suc k"
proof -
  let ?P = "generateAggregatorPrompt outs req"
  from assms(1) consider "k = 0" | "k = Suc 0" | "k = 2" by linarith
  then show ?thesis
  proof cases
    case 1
    with assms(3) show ?thesis by (simp add: judgedLoop_unfold)
  next
    case 2
    with assms(2) obtain m0 where "judge 0 ?P = Inl m0" "isRateLimit m0" by auto
    with 2 assms(3) show ?thesis by (simp add: judgedLoop_unfold Let_def)
  next
    case 3
    from 3 assms(2) have "\<exists>m. judge 0 ?P = Inl m \<and> isRateLimit m" by simp
    then obtain m0 where m0: "judge 0 ?P = Inl m0" "isRateLimit m0" by auto
    from 3 assms(2) have "\<exists>m. judge (Suc 0) ?P = Inl m \<and> isRateLimit m" by simp
    then obtain m1 where m1: "judge (Suc 0) ?P = Inl m1" "isRateLimit m1" by auto
    from 3 m0 m1 assms(3) show ?thesis by (simp add: judgedLoop_unfold Let_def)
  qed
qed

text \<open>
  Claim C8. On the judged path, when the judge replies (at the first attempt or after
  rate-limited attempts) and the reply holds no \<open>{...}\<close> block, or holds one that \<open>JSON.parse\<close> rejects, the result
  has the whole reply as its synthesis, the first key of the agent outputs as its winner,
  and the method \<open>llm\<close> of the judged path.
\<close>

theorem judged_reply_without_verdict:
  assumes "agentOutputs \<noteq> []" "\<not> trimIsEmpty originalRequest"
    and "\<not> list_all isErrorOutput (map snd agentOutputs)"
    and "createAggregatorAgent env bestAvailable provider model = Inr (Some ag)"
    and "k \<le> 2"
    and "\<forall>i<k. \<exists>m. judge i (generateAggregatorPrompt agentOutputs originalRequest) = Inl m \<and> isRateLimit m"
    and "judge k (generateAggregatorPrompt agentOutputs originalRequest) = Inr response"
    and "jsonMatch response = None \<or> (\<exists>text. jsonMatch response = Some text \<and> parse text = None)"
  shows "\<exists>a. aggregate env bestAvailable judge parse now agentOutputs originalRequest provider model = Inr a
     \<and> getProp (synthesisResult a) (js ''synthesis'') = Str response
     \<and> getProp (synthesisResult a) (js ''winner'') = Str (fst (hd agentOutputs))
     \<and> getProp (synthesisResult a) (js ''method'') = Str (js ''llm'')"
proof -
  from aggregate_via_loop [OF assms(1-4), of judge parse now] obtain a where a:
    "aggregate env bestAvailable judge parse now agentOutputs originalRequest provider model = Inr a"
    "case verdict (judgedLoop judge parse now agentOutputs originalRequest 0 None) of
       None \<Rightarrow> getProp (synthesisResult a) (js ''method'') = Str (js ''heuristic'')
     | Some v \<Rightarrow> synthesisResult a = v"
    by blast
  from loop_reply [where judge = judge and outs = agentOutputs and req = originalRequest
      and parse = parse and now = now, OF assms(5-7)] a(2)
  have "synthesisResult a = judgedResult parse now agentOutputs response" by simp
  then have r: "synthesisResult a =
           [((js ''winner''), firstKey agentOutputs),
            ((js ''synthesis''), Str response),
            ((js ''recommendations''),
               Arr [Str (js ''Review the synthesis above''), Str (js ''Implement based on agent recommendations'')]),
            ((js ''finalCode''), Null),
            ((js ''method''), Str (js ''llm'')),
            ((js ''timestamp''), Str now)]"
    using judgedResult_no_verdict [OF assms(8)] by simp
  have "firstKey agentOutputs = Str (fst (hd agentOutputs))"
    using assms(1) by (cases agentOutputs) (simp_all add: firstKey_def)
  with a(1) r show ?thesis by (simp add: getProp_def)
qed

lemma loop_delays:
  "\<forall>i<length (delays (judgedLoop judge parse now outs req 0 None)).
      \<exists>m. judge i (generateAggregatorPrompt outs req) = Inl m \<and> isRateLimit m
        \<and> delays (judgedLoop judge parse now outs req 0 None) ! i = multiply (baseDelay (Some m)) (Suc i)"
  by (auto simp: judgedLoop_unfold Let_def retryDelay_def less_Suc_eq nth_Cons' split: sum.splits)
     (simp_all add: numeral_2_eq_2)

lemma demo_request_ok: "\<not> trimIsEmpty (js ''Build a REST API'')"
  by (simp add: trimIsEmpty_def trim_def isWhiteSpace_def)

lemma demoOutputs_not_all_errors: "\<not> list_all isErrorOutput (map snd demoOutputs)"
  by (simp add: demoOutputs_def isErrorOutput_def toLowerCase_def toLowerUnit_def)

lemma demoErrors_all_errors: "list_all isErrorOutput (map snd demoErrors)"
  by (simp add: demoErrors_def isErrorOutput_def)

lemma demo_default_provider: "getDefaultProvider demoEnv = Some (js ''openai'')"
  by (simp add: getDefaultProvider_def getAvailableProviders_def getApiKeys_def demoEnv_def
      normaliseKey_def keyPresent_def trimIsEmpty_def trim_def isWhiteSpace_def OPENAI_def)

lemma demo_api_key: "getApiKey demoEnv (js ''openai'') = Some (js ''sk-test'')"
  by (simp add: getApiKey_def getApiKeys_def demoEnv_def normaliseKey_def trimIsEmpty_def trim_def
      isWhiteSpace_def OPENAI_def)

lemma demo_aggregator:
  "createAggregatorAgent demoEnv demoBest None None =
     Inr (Some \<lparr> ag_provider = (js ''openai''), ag_model = (js ''gpt-4o'') \<rparr>)"
  using demo_default_provider demo_api_key
  by (simp add: createAggregatorAgent_def orElse_def truthy_def demoBest_def OPENAI_def)

lemma rate_limit_429: "isRateLimit (js ''API Error (429): Rate limit reached. Please try again in 7s.'')"
  by (simp add: isRateLimit_def)

lemma rate_limit_429b: "isRateLimit (js ''API Error (429): Too many requests'')"
  by (simp add: isRateLimit_def)

lemma not_rate_limit_401: "\<not> isRateLimit (js ''API Error (401): invalid api key'')"
  by (simp add: isRateLimit_def toLowerCase_def toLowerUnit_def)

theorem aggregate_error_fallback_witness:
  "demoErrors \<noteq> [] \<and> \<not> trimIsEmpty (js ''Build a REST API'') \<and> list_all isErrorOutput (map snd demoErrors)
   \<and> (\<exists>a. aggregate demoEnv demoBest rateLimitedJudge noParse (js ''t0'') demoErrors (js ''Build a REST API'') None None = Inr a
         \<and> attempts a = 0
         \<and> getProp (synthesisResult a) (js ''method'') = Str (js ''error_fallback'')
         \<and> getProp (synthesisResult a) (js ''winner'') = Null)"
proof -
  have ne: "demoErrors \<noteq> []" by (simp add: demoErrors_def)
  from aggregate_error_fallback [OF ne demo_request_ok demoErrors_all_errors,
      of demoEnv demoBest rateLimitedJudge noParse "(js ''t0'')" None None]
  show ?thesis using ne demo_request_ok demoErrors_all_errors by blast
qed

theorem aggregate_error_fallback_counterexample:
  "aggregate demoEnv demoBest rateLimitedJudge noParse (js ''t0'') demoErrors (js ''Build a REST API'') None None
     = Inr \<lparr> synthesisResult = errorFallback (js ''t0'') (map snd demoErrors), attempts = 0, slept = [] \<rparr>
   \<and> getProp (errorFallback (js ''t0'') (map snd demoErrors)) (js ''recommendations'') =
       Arr [Str (js ''Check API key configuration and quotas''),
            Str (js ''Verify network connectivity''),
            Str (js ''Review individual agent error messages above''),
            Str (js ''Consider using a different LLM provider if available'')]
   \<and> getProp (errorFallback (js ''t0'') (map snd demoErrors)) (js ''synthesis'') =
       Str ((js ''All agents failed to process the request. Error details:'') @ [nl, nl]
            @ (js ''Agent 1: Error: upstream timeout'') @ [nl]
            @ (js ''Agent 2: Error: API Error (401): invalid key'') @ [nl, nl]
            @ (js ''Please check your API keys, quotas, and network connectivity.''))"
proof -
  have "aggregate demoEnv demoBest rateLimitedJudge noParse (js ''t0'') demoErrors (js ''Build a REST API'') None None
      = Inr \<lparr> synthesisResult = errorFallback (js ''t0'') (map snd demoErrors), attempts = 0, slept = [] \<rparr>"
    using demo_request_ok demoErrors_all_errors
    by (simp add: aggregate_def Let_def demoErrors_def)
  moreover have "showNat (Suc 0) = (js ''1'')" "showNat (Suc (Suc 0)) = (js ''2'')"
    by (simp_all add: showNat.simps digitChar_def)
  ultimately show ?thesis
    by (simp add: errorFallback_def getProp_def errorSummary_def demoErrors_def)
qed

theorem judged_path_retries_witness:
  "(\<exists>a. aggregate demoEnv demoBest rateLimitedJudge noParse (js ''t0'') demoOutputs (js ''Build a REST API'') None None = Inr a
        \<and> attempts a = 3 \<and> getProp (synthesisResult a) (js ''method'') = Str (js ''heuristic''))
   \<and> (\<exists>a. aggregate demoEnv demoBest refusedJudge noParse (js ''t0'') demoOutputs (js ''Build a REST API'') None None = Inr a
        \<and> attempts a = 1 \<and> getProp (synthesisResult a) (js ''method'') = Str (js ''heuristic''))"
proof -
  have ne: "demoOutputs \<noteq> []" by (simp add: demoOutputs_def)
  have rl: "\<forall>i\<le>2. \<exists>m. rateLimitedJudge i (generateAggregatorPrompt demoOutputs (js ''Build a REST API'')) = Inl m
               \<and> isRateLimit m"
    using rate_limit_429 by (simp add: rateLimitedJudge_def)
  have rf: "(\<forall>i<0. \<exists>m. refusedJudge i (generateAggregatorPrompt demoOutputs (js ''Build a REST API'')) = Inl m
               \<and> isRateLimit m)
          \<and> (\<exists>m. refusedJudge 0 (generateAggregatorPrompt demoOutputs (js ''Build a REST API'')) = Inl m
               \<and> \<not> isRateLimit m)"
    using not_rate_limit_401 by (simp add: refusedJudge_def)
  from judged_path_retries [OF ne demo_request_ok demoOutputs_not_all_errors demo_aggregator,
      of rateLimitedJudge noParse "(js ''t0'')"] rl
  have a: "\<exists>a. aggregate demoEnv demoBest rateLimitedJudge noParse (js ''t0'') demoOutputs (js ''Build a REST API'') None None = Inr a
        \<and> attempts a = 3 \<and> getProp (synthesisResult a) (js ''method'') = Str (js ''heuristic'')"
    by blast
  from judged_path_retries [OF ne demo_request_ok demoOutputs_not_all_errors demo_aggregator,
      of refusedJudge noParse "(js ''t0'')"] rf
  have b: "\<exists>a. aggregate demoEnv demoBest refusedJudge noParse (js ''t0'') demoOutputs (js ''Build a REST API'') None None = Inr a
        \<and> attempts a = 1 \<and> getProp (synthesisResult a) (js ''method'') = Str (js ''heuristic'')"
    by (metis le0 One_nat_def)
  from a b show ?thesis by simp
qed

theorem judged_reply_without_verdict_witness:
  "\<exists>a. aggregate demoEnv demoBest proseJudge noParse (js ''t0'') demoOutputs (js ''Build a REST API'') None None = Inr a
     \<and> getProp (synthesisResult a) (js ''synthesis'') = Str (js ''The architect has the strongest plan.'')
     \<and> getProp (synthesisResult a) (js ''winner'') = Str (js ''ArchitectAgent'')
     \<and> getProp (synthesisResult a) (js ''method'') = Str (js ''llm'')"
proof -
  have ne: "demoOutputs \<noteq> []" by (simp add: demoOutputs_def)
  have k: "Suc 0 \<le> 2" by simp
  have before: "\<forall>i<Suc 0. \<exists>m. proseJudge i (generateAggregatorPrompt demoOutputs (js ''Build a REST API'')) = Inl m
               \<and> isRateLimit m"
    using rate_limit_429b by (simp add: proseJudge_def)
  have reply: "proseJudge (Suc 0) (generateAggregatorPrompt demoOutputs (js ''Build a REST API''))
      = Inr (js ''The architect has the strongest plan.'')"
    by (simp add: proseJudge_def)
  have nov: "jsonMatch (js ''The architect has the strongest plan.'') = None
      \<or> (\<exists>text. jsonMatch (js ''The architect has the strongest plan.'') = Some text \<and> noParse text = None)"
    by (simp add: jsonMatch_def)
  from judged_reply_without_verdict [where judge = proseJudge and parse = noParse and now = "(js ''t0'')"
      and k = "Suc 0", OF ne demo_request_ok demoOutputs_not_all_errors demo_aggregator
      k before reply nov]
  show ?thesis by (simp add: demoOutputs_def)
qed

subsection \<open>Retry delays\<close>

lemma startsWith_iff: "startsWith s p \<longleftrightarrow> (\<exists>r. s = p @ r)"
  by (induction s p rule: startsWith.induct) auto

lemma below_ten: "(k::nat) < 10 \<Longrightarrow> k \<in> set [0, 1, 2, 3, 4, 5, 6, 7, 8, 9]"
  by (simp add: less_Suc_eq eval_nat_numeral)

lemma digitValue_digitChar: "digitValue (digitChar d) = d mod 10"
  by (simp add: digitValue_def digitChar_def)

lemma isDigit_digitChar: "isDigit (digitChar d)"
proof -
  have "d mod 10 < 10" by simp
  then show ?thesis by (simp add: isDigit_def digitChar_def)
qed

text \<open>The value of a string of digits, and \<open>parseInt\<close> of the digits of a number.\<close>

lemma decimal_showNat: "foldl (\<lambda>n c. 10 * n + digitValue c) 0 (showNat n) = n"
proof (induction n rule: showNat.induct)
  case (1 n)
  show ?case
  proof (cases "n < 10")
    case True
    then show ?thesis
      by (subst showNat.simps) (simp add: digitValue_digitChar)
  next
    case False
    with 1 have "foldl (\<lambda>n c. 10 * n + digitValue c) 0 (showNat (n div 10)) = n div 10" by simp
    with False show ?thesis
      by (subst showNat.simps) (simp add: digitValue_digitChar)
  qed
qed

lemma parseInt_showNat: "parseInt (showNat n) = number n"
  by (simp add: parseInt_def decimal_showNat)

lemma showNat_digits: "showNat n \<noteq> [] \<and> list_all isDigit (showNat n)"
proof (induction n rule: showNat.induct)
  case (1 n)
  show ?case
  proof (cases "n < 10")
    case True
    then show ?thesis by (subst showNat.simps, subst showNat.simps) (simp add: isDigit_digitChar)
  next
    case False
    with 1 have "list_all isDigit (showNat (n div 10))" by simp
    with False show ?thesis
      by (subst showNat.simps, subst (2) showNat.simps) (simp add: isDigit_digitChar)
  qed
qed

lemma takeWhile_digits:
  "list_all isDigit ds \<Longrightarrow> \<not> isDigit c \<Longrightarrow> takeWhile isDigit (ds @ c # post) = ds"
  by (induction ds) auto

lemma dropWhile_digits:
  "list_all isDigit ds \<Longrightarrow> \<not> isDigit c \<Longrightarrow> dropWhile isDigit (ds @ c # post) = c # post"
  by (induction ds) auto

lemma s_not_digit: "foldUnit c = 115 \<Longrightarrow> \<not> isDigit c"
  by (auto simp: isDigit_def foldUnit_def split: if_splits)

text \<open>
  One position of the message: the pattern matches there exactly when the text from there
  on is the phrase, in any case, then one digit or more, then \<open>s\<close> or \<open>S\<close>.
\<close>

lemma here_general:
  assumes k: "length ph = k"
  shows "(startsWith (map foldUnit s) ph \<and> takeWhile isDigit (drop k s) = ds \<and> ds \<noteq> []
           \<and> dropWhile isDigit (drop k s) \<noteq> []
           \<and> foldUnit (hd (dropWhile isDigit (drop k s))) = 115)
         \<longleftrightarrow> (\<exists>p c post. s = p @ ds @ c # post \<and> map foldUnit p = ph \<and> ds \<noteq> []
                 \<and> list_all isDigit ds \<and> foldUnit c = 115)"
proof
  assume l: "startsWith (map foldUnit s) ph \<and> takeWhile isDigit (drop k s) = ds \<and> ds \<noteq> []
           \<and> dropWhile isDigit (drop k s) \<noteq> []
           \<and> foldUnit (hd (dropWhile isDigit (drop k s))) = 115"
  then obtain r where r: "map foldUnit s = ph @ r" by (auto simp: startsWith_iff)
  then have "take k (map foldUnit s) = ph" using k by simp
  then have p: "map foldUnit (take k s) = ph" by (simp add: take_map)
  from l obtain c post where after: "dropWhile isDigit (drop k s) = c # post"
    by (cases "dropWhile isDigit (drop k s)") auto
  with l have c: "foldUnit c = 115" by simp
  have "drop k s = takeWhile isDigit (drop k s) @ dropWhile isDigit (drop k s)" by simp
  with l after have rest: "drop k s = ds @ c # post" by simp
  have "s = take k s @ drop k s" by simp
  with rest have s: "s = take k s @ ds @ c # post" by simp
  from l have dig: "list_all isDigit ds"
    by (auto simp: list_all_iff dest: set_takeWhileD)
  from s p l dig c show "\<exists>p c post. s = p @ ds @ c # post \<and> map foldUnit p = ph \<and> ds \<noteq> []
                 \<and> list_all isDigit ds \<and> foldUnit c = 115" by blast
next
  assume "\<exists>p c post. s = p @ ds @ c # post \<and> map foldUnit p = ph \<and> ds \<noteq> []
                 \<and> list_all isDigit ds \<and> foldUnit c = 115"
  then obtain p c post where s: "s = p @ ds @ c # post" and p: "map foldUnit p = ph"
    and ds: "ds \<noteq> []" "list_all isDigit ds" and c: "foldUnit c = 115" by blast
  from p k have len: "length p = k" by auto
  have sw: "startsWith (map foldUnit s) ph" using s p by (auto simp: startsWith_iff)
  from len s have dr: "drop k s = ds @ c # post" by simp
  show "startsWith (map foldUnit s) ph \<and> takeWhile isDigit (drop k s) = ds \<and> ds \<noteq> []
           \<and> dropWhile isDigit (drop k s) \<noteq> []
           \<and> foldUnit (hd (dropWhile isDigit (drop k s))) = 115"
    using sw dr ds c s_not_digit [OF c] by (simp add: takeWhile_digits dropWhile_digits)
qed

lemma tryAgainHere_iff:
  "tryAgainHere s = Some ds \<longleftrightarrow>
     (\<exists>p c post. s = p @ ds @ c # post \<and> map foldUnit p = js ''try again in '' \<and> ds \<noteq> []
        \<and> list_all isDigit ds \<and> foldUnit c = cu CHR ''s'')"
proof -
  have len: "length (js ''try again in '') = 13" by simp
  have "tryAgainHere s = Some ds \<longleftrightarrow>
      (startsWith (map foldUnit s) (js ''try again in '') \<and> takeWhile isDigit (drop 13 s) = ds \<and> ds \<noteq> []
           \<and> dropWhile isDigit (drop 13 s) \<noteq> []
           \<and> foldUnit (hd (dropWhile isDigit (drop 13 s))) = 115)"
    by (auto simp add: tryAgainHere_def Let_def simp del: startsWith.simps)
  also have "\<dots> \<longleftrightarrow> (\<exists>p c post. s = p @ ds @ c # post \<and> map foldUnit p = js ''try again in '' \<and> ds \<noteq> []
        \<and> list_all isDigit ds \<and> foldUnit c = 115)"
    by (rule here_general [OF len])
  finally show ?thesis by simp
qed

lemma tryAgainHere_Nil: "tryAgainHere [] = None"
  by (simp add: tryAgainHere_def)

lemma tryAgainMatch_None:
  "tryAgainMatch m = None \<longleftrightarrow> (\<forall>pre rest. m = pre @ rest \<longrightarrow> tryAgainHere rest = None)"
proof (induction m)
  case Nil
  then show ?case by (simp add: tryAgainHere_Nil)
next
  case (Cons a m)
  show ?case
  proof
    assume n: "tryAgainMatch (a # m) = None"
    then have here: "tryAgainHere (a # m) = None" and later: "tryAgainMatch m = None"
      by (auto split: option.splits)
    show "\<forall>pre rest. a # m = pre @ rest \<longrightarrow> tryAgainHere rest = None"
    proof (intro allI impI)
      fix pre rest assume e: "a # m = pre @ rest"
      show "tryAgainHere rest = None"
      proof (cases pre)
        case Nil
        with e here show ?thesis by simp
      next
        case (Cons b pre')
        with e have "m = pre' @ rest" by simp
        with later Cons.IH show ?thesis by blast
      qed
    qed
  next
    assume all: "\<forall>pre rest. a # m = pre @ rest \<longrightarrow> tryAgainHere rest = None"
    then have here: "tryAgainHere (a # m) = None" by (metis append_Nil)
    have "\<forall>pre rest. m = pre @ rest \<longrightarrow> tryAgainHere rest = None"
    proof (intro allI impI)
      fix pre rest assume "m = pre @ rest"
      then have "a # m = (a # pre) @ rest" by simp
      with all show "tryAgainHere rest = None" by blast
    qed
    with Cons.IH have "tryAgainMatch m = None" by blast
    with here show "tryAgainMatch (a # m) = None" by simp
  qed
qed

lemma tryAgainMatch_leftmost:
  assumes "tryAgainHere rest = Some ds"
  shows "(\<forall>pre1 rest1. pre @ rest = pre1 @ rest1 \<and> length pre1 < length pre \<longrightarrow> tryAgainHere rest1 = None)
         \<Longrightarrow> tryAgainMatch (pre @ rest) = Some ds"
proof (induction pre)
  case Nil
  from assms have "rest \<noteq> []" using tryAgainHere_Nil by auto
  then obtain x xs where "rest = x # xs" by (cases rest) auto
  with assms show ?case by simp
next
  case (Cons a pre)
  have "(a # pre) @ rest = [] @ (a # pre @ rest) \<and> length ([] :: jstring) < length (a # pre)" by simp
  with Cons.prems have here: "tryAgainHere (a # pre @ rest) = None" by blast
  have "\<forall>pre1 rest1. pre @ rest = pre1 @ rest1 \<and> length pre1 < length pre \<longrightarrow> tryAgainHere rest1 = None"
  proof (intro allI impI)
    fix pre1 rest1 assume "pre @ rest = pre1 @ rest1 \<and> length pre1 < length pre"
    then have "(a # pre) @ rest = (a # pre1) @ rest1 \<and> length (a # pre1) < length (a # pre)" by simp
    with Cons.prems show "tryAgainHere rest1 = None" by blast
  qed
  with Cons.IH have "tryAgainMatch (pre @ rest) = Some ds" by blast
  with here show ?case by simp
qed

text \<open>The matcher finds a hint exactly in the messages that carry one.\<close>

lemma carriesHint_iff: "carriesHint m \<longleftrightarrow> tryAgainMatch m \<noteq> None"
proof
  assume "carriesHint m"
  then obtain pre p ds c post where m: "m = pre @ p @ ds @ c # post"
    and h: "map foldUnit p = js ''try again in ''" "ds \<noteq> []" "list_all isDigit ds"
           "foldUnit c = cu CHR ''s''"
    unfolding carriesHint_def by blast
  from h have "tryAgainHere (p @ ds @ c # post) = Some ds"
    unfolding tryAgainHere_iff by blast
  then have "tryAgainHere (p @ ds @ c # post) \<noteq> None" by simp
  with m have "m = pre @ (p @ ds @ c # post) \<and> tryAgainHere (p @ ds @ c # post) \<noteq> None" by simp
  then have "\<not> (\<forall>pre rest. m = pre @ rest \<longrightarrow> tryAgainHere rest = None)"
  proof (intro notI)
    assume all: "\<forall>pre rest. m = pre @ rest \<longrightarrow> tryAgainHere rest = None"
    assume "m = pre @ (p @ ds @ c # post) \<and> tryAgainHere (p @ ds @ c # post) \<noteq> None"
    with all [rule_format, of pre "p @ ds @ c # post"] show False by simp
  qed
  then show "tryAgainMatch m \<noteq> None" unfolding tryAgainMatch_None .
next
  assume "tryAgainMatch m \<noteq> None"
  then obtain pre rest where m: "m = pre @ rest" and "tryAgainHere rest \<noteq> None"
    unfolding tryAgainMatch_None by blast
  then obtain ds where "tryAgainHere rest = Some ds" by auto
  then obtain p c post where "rest = p @ ds @ c # post" "map foldUnit p = js ''try again in ''" "ds \<noteq> []"
        "list_all isDigit ds" "foldUnit c = cu CHR ''s''"
    unfolding tryAgainHere_iff by blast
  with m show "carriesHint m" unfolding carriesHint_def by blast
qed

lemma baseDelay_default: "\<not> carriesHint m \<Longrightarrow> baseDelay (Some m) = Exact 20000"
  by (simp add: baseDelay_def carriesHint_iff)

lemma tryAgainMatch_hint:
  assumes p: "map foldUnit p = js ''try again in ''"
    and ds: "ds \<noteq> []" "list_all isDigit ds" and c: "foldUnit c = cu CHR ''s''"
    and first: "\<forall>pre1 p1 ds1 c1 post1.
        pre @ p @ ds @ c # post = pre1 @ p1 @ ds1 @ c1 # post1
        \<and> map foldUnit p1 = js ''try again in '' \<and> ds1 \<noteq> [] \<and> list_all isDigit ds1
        \<and> foldUnit c1 = cu CHR ''s''
        \<longrightarrow> length pre \<le> length pre1"
  shows "tryAgainMatch (pre @ p @ ds @ c # post) = Some ds"
proof -
  have here: "tryAgainHere (p @ ds @ c # post) = Some ds"
    unfolding tryAgainHere_iff using p ds c by blast
  have "\<forall>pre1 rest1. pre @ (p @ ds @ c # post) = pre1 @ rest1 \<and> length pre1 < length pre
          \<longrightarrow> tryAgainHere rest1 = None"
  proof (intro allI impI)
    fix pre1 rest1
    assume a: "pre @ (p @ ds @ c # post) = pre1 @ rest1 \<and> length pre1 < length pre"
    show "tryAgainHere rest1 = None"
    proof (rule ccontr)
      assume "tryAgainHere rest1 \<noteq> None"
      then obtain ds1 where "tryAgainHere rest1 = Some ds1" by auto
      then obtain p1 c1 post1 where "rest1 = p1 @ ds1 @ c1 # post1"
        "map foldUnit p1 = js ''try again in ''" "ds1 \<noteq> []" "list_all isDigit ds1"
        "foldUnit c1 = cu CHR ''s''"
        unfolding tryAgainHere_iff by blast
      with a first [rule_format, of pre1 p1 ds1 c1 post1] have "length pre \<le> length pre1" by simp
      with a show False by simp
    qed
  qed
  from tryAgainMatch_leftmost [OF here this] show ?thesis by simp
qed

lemma baseDelay_hint:
  assumes p: "map foldUnit p = js ''try again in ''" and c: "foldUnit c = cu CHR ''s''"
    and first: "\<forall>pre1 p1 ds1 c1 post1.
        pre @ p @ showNat n @ c # post = pre1 @ p1 @ ds1 @ c1 # post1
        \<and> map foldUnit p1 = js ''try again in '' \<and> ds1 \<noteq> [] \<and> list_all isDigit ds1
        \<and> foldUnit c1 = cu CHR ''s''
        \<longrightarrow> length pre \<le> length pre1"
  shows "baseDelay (Some (pre @ p @ showNat n @ c # post)) =
           (if n * 1000 \<le> maxExact then Exact (n * 1000) else Large)"
proof -
  have "tryAgainMatch (pre @ p @ showNat n @ c # post) = Some (showNat n)"
    using tryAgainMatch_hint [OF p _ _ c first] showNat_digits by blast
  moreover have "pre @ p @ showNat n @ c # post \<noteq> []" by simp
  ultimately have "baseDelay (Some (pre @ p @ showNat n @ c # post)) = multiply (number n) 1000"
    by (simp add: baseDelay_def parseInt_showNat)
  moreover have "multiply (number n) 1000 = (if n * 1000 \<le> maxExact then Exact (n * 1000) else Large)"
    by (simp add: number_def)
  ultimately show ?thesis by simp
qed

lemma loop_delays_length:
  "length (delays (judgedLoop judge parse now outs req 0 None))
     = judgeCalls (judgedLoop judge parse now outs req 0 None) - 1"
  by (simp add: judgedLoop_unfold Let_def split: sum.splits)

lemma loop_delays_exact:
  "\<forall>i<length (delays (judgedLoop judge parse now outs req 0 None)).
      \<exists>m. judge i (generateAggregatorPrompt outs req) = Inl m \<and> isRateLimit m
        \<and> delays (judgedLoop judge parse now outs req 0 None) ! i = retryDelay (Some m) (Suc i)
        \<and> (\<forall>b. baseDelay (Some m) = Exact b \<and> b * Suc i \<le> maxExact
               \<longrightarrow> delays (judgedLoop judge parse now outs req 0 None) ! i = Exact (b * Suc i))"
proof (intro allI impI)
  fix i assume "i < length (delays (judgedLoop judge parse now outs req 0 None))"
  with loop_delays [of judge parse now outs req] obtain m where m:
    "judge i (generateAggregatorPrompt outs req) = Inl m" "isRateLimit m"
    "delays (judgedLoop judge parse now outs req 0 None) ! i = multiply (baseDelay (Some m)) (Suc i)"
    by blast
  have "\<forall>b. baseDelay (Some m) = Exact b \<and> b * Suc i \<le> maxExact
               \<longrightarrow> delays (judgedLoop judge parse now outs req 0 None) ! i = Exact (b * Suc i)"
    using m(3) by (simp add: number_def)
  with m show "\<exists>m. judge i (generateAggregatorPrompt outs req) = Inl m \<and> isRateLimit m
        \<and> delays (judgedLoop judge parse now outs req 0 None) ! i = retryDelay (Some m) (Suc i)
        \<and> (\<forall>b. baseDelay (Some m) = Exact b \<and> b * Suc i \<le> maxExact
               \<longrightarrow> delays (judgedLoop judge parse now outs req 0 None) ! i = Exact (b * Suc i))"
    by (simp add: retryDelay_def)
qed

text \<open>
  Claim C9. On the judged path \<open>aggregate\<close> waits once before every retry, and the delay
  before attempt \<open>i + 1\<close> is the base delay of the error of attempt \<open>i\<close> times \<open>i + 1\<close>: the
  base before the second attempt, twice the base before the third. The base delay is
  20000 ms for every message that carries no retry-after hint (no \<open>try again in\<close>, in any
  case, followed by digits and an \<open>s\<close>), and \<open>n * 1000\<close> ms when the leftmost hint of the
  message gives the number \<open>n\<close>. The products are those of JavaScript numbers: they are
  the exact values as long as these are at most \<open>2^53\<close>.
\<close>

theorem retry_delay_linear:
  assumes "agentOutputs \<noteq> []" "\<not> trimIsEmpty originalRequest"
    and "\<not> list_all isErrorOutput (map snd agentOutputs)"
    and "createAggregatorAgent env bestAvailable provider model = Inr (Some ag)"
  shows "(\<exists>a. aggregate env bestAvailable judge parse now agentOutputs originalRequest provider model = Inr a
          \<and> length (slept a) = attempts a - 1
          \<and> (\<forall>i<length (slept a).
                \<exists>m. judge i (generateAggregatorPrompt agentOutputs originalRequest) = Inl m
                   \<and> isRateLimit m
                   \<and> slept a ! i = retryDelay (Some m) (Suc i)
                   \<and> (\<forall>b. baseDelay (Some m) = Exact b \<and> b * Suc i \<le> maxExact
                          \<longrightarrow> slept a ! i = Exact (b * Suc i))))
     \<and> (\<forall>m. \<not> carriesHint m \<longrightarrow> baseDelay (Some m) = Exact 20000)
     \<and> (\<forall>pre p n c post.
           map foldUnit p = js ''try again in '' \<and> foldUnit c = cu CHR ''s''
           \<and> (\<forall>pre1 p1 ds1 c1 post1.
                 pre @ p @ showNat n @ c # post = pre1 @ p1 @ ds1 @ c1 # post1
                 \<and> map foldUnit p1 = js ''try again in '' \<and> ds1 \<noteq> [] \<and> list_all isDigit ds1
                 \<and> foldUnit c1 = cu CHR ''s''
                 \<longrightarrow> length pre \<le> length pre1)
           \<longrightarrow> baseDelay (Some (pre @ p @ showNat n @ c # post)) =
                 (if n * 1000 \<le> maxExact then Exact (n * 1000) else Large))"
proof (intro conjI)
  from aggregate_via_loop [OF assms, of judge parse now] obtain a where a:
    "aggregate env bestAvailable judge parse now agentOutputs originalRequest provider model = Inr a"
    "attempts a = judgeCalls (judgedLoop judge parse now agentOutputs originalRequest 0 None)"
    "slept a = delays (judgedLoop judge parse now agentOutputs originalRequest 0 None)"
    by blast
  have "\<forall>i<length (slept a).
                \<exists>m. judge i (generateAggregatorPrompt agentOutputs originalRequest) = Inl m
                   \<and> isRateLimit m
                   \<and> slept a ! i = retryDelay (Some m) (Suc i)
                   \<and> (\<forall>b. baseDelay (Some m) = Exact b \<and> b * Suc i \<le> maxExact
                          \<longrightarrow> slept a ! i = Exact (b * Suc i))"
    using loop_delays_exact [of judge parse now agentOutputs originalRequest]
    by (simp only: a(3))
  moreover have "length (slept a) = attempts a - 1"
    using loop_delays_length [of judge parse now agentOutputs originalRequest] a(2) a(3) by simp
  ultimately show "\<exists>a. aggregate env bestAvailable judge parse now agentOutputs originalRequest provider model = Inr a
          \<and> length (slept a) = attempts a - 1
          \<and> (\<forall>i<length (slept a).
                \<exists>m. judge i (generateAggregatorPrompt agentOutputs originalRequest) = Inl m
                   \<and> isRateLimit m
                   \<and> slept a ! i = retryDelay (Some m) (Suc i)
                   \<and> (\<forall>b. baseDelay (Some m) = Exact b \<and> b * Suc i \<le> maxExact
                          \<longrightarrow> slept a ! i = Exact (b * Suc i)))"
    using a(1) by (intro exI [of _ a] conjI)
next
  show "\<forall>m. \<not> carriesHint m \<longrightarrow> baseDelay (Some m) = Exact 20000"
    using baseDelay_default by blast
next
  show "\<forall>pre p n c post.
           map foldUnit p = js ''try again in '' \<and> foldUnit c = cu CHR ''s''
           \<and> (\<forall>pre1 p1 ds1 c1 post1.
                 pre @ p @ showNat n @ c # post = pre1 @ p1 @ ds1 @ c1 # post1
                 \<and> map foldUnit p1 = js ''try again in '' \<and> ds1 \<noteq> [] \<and> list_all isDigit ds1
                 \<and> foldUnit c1 = cu CHR ''s''
                 \<longrightarrow> length pre \<le> length pre1)
           \<longrightarrow> baseDelay (Some (pre @ p @ showNat n @ c # post)) =
                 (if n * 1000 \<le> maxExact then Exact (n * 1000) else Large)"
  proof (intro allI impI)
    fix pre p n c post
    assume h: "map foldUnit p = js ''try again in '' \<and> foldUnit c = cu CHR ''s''
           \<and> (\<forall>pre1 p1 ds1 c1 post1.
                 pre @ p @ showNat n @ c # post = pre1 @ p1 @ ds1 @ c1 # post1
                 \<and> map foldUnit p1 = js ''try again in '' \<and> ds1 \<noteq> [] \<and> list_all isDigit ds1
                 \<and> foldUnit c1 = cu CHR ''s''
                 \<longrightarrow> length pre \<le> length pre1)"
    from h have p: "map foldUnit p = js ''try again in ''" by (rule conjunct1)
    from h have c: "foldUnit c = cu CHR ''s''" by (rule conjunct1 [OF conjunct2])
    from h have first: "\<forall>pre1 p1 ds1 c1 post1.
                 pre @ p @ showNat n @ c # post = pre1 @ p1 @ ds1 @ c1 # post1
                 \<and> map foldUnit p1 = js ''try again in '' \<and> ds1 \<noteq> [] \<and> list_all isDigit ds1
                 \<and> foldUnit c1 = cu CHR ''s''
                 \<longrightarrow> length pre \<le> length pre1" by (rule conjunct2 [OF conjunct2])
    show "baseDelay (Some (pre @ p @ showNat n @ c # post)) =
                 (if n * 1000 \<le> maxExact then Exact (n * 1000) else Large)"
      by (rule baseDelay_hint [OF p c first])
  qed
qed

lemma demo_base:
  "baseDelay (Some (js ''API Error (429): Rate limit reached. Please try again in 7s.'')) = Exact 7000"
  by (simp add: baseDelay_def tryAgainHere_def foldUnit_def isDigit_def parseInt_def digitValue_def
      number_def maxExact_def Let_def)

lemma demo_no_hint: "\<not> carriesHint (js ''API Error (429): Try again in 7 minutes'')"
  by (simp add: carriesHint_iff tryAgainHere_def foldUnit_def isDigit_def Let_def)

lemma showNat_45: "showNat 45 = js ''45''"
  by (simp add: showNat.simps digitChar_def)

theorem retry_delay_linear_witness:
  "(\<exists>a. aggregate demoEnv demoBest rateLimitedJudge noParse (js ''t0'') demoOutputs (js ''Build a REST API'') None None = Inr a
      \<and> attempts a = 3 \<and> length (slept a) = 2 \<and> slept a ! 0 = Exact 7000 \<and> slept a ! 1 = Exact 14000)
   \<and> \<not> carriesHint (js ''API Error (429): Try again in 7 minutes'')
   \<and> baseDelay (Some (js ''API Error (429): Try again in 7 minutes'')) = Exact 20000
   \<and> baseDelay (Some (js ''Try Again In 45S'')) = Exact 45000"
proof -
  let ?P = "generateAggregatorPrompt demoOutputs (js ''Build a REST API'')"
  let ?msg = "js ''API Error (429): Rate limit reached. Please try again in 7s.''"
  have ne: "demoOutputs \<noteq> []" by (simp add: demoOutputs_def)
  note inst = retry_delay_linear [OF ne demo_request_ok demoOutputs_not_all_errors demo_aggregator,
      of rateLimitedJudge noParse "js ''t0''"]
  from inst obtain a where a:
    "aggregate demoEnv demoBest rateLimitedJudge noParse (js ''t0'') demoOutputs (js ''Build a REST API'') None None = Inr a"
    "length (slept a) = attempts a - 1"
    "\<forall>i<length (slept a). \<exists>m. rateLimitedJudge i ?P = Inl m
        \<and> isRateLimit m
        \<and> slept a ! i = retryDelay (Some m) (Suc i)
        \<and> (\<forall>b. baseDelay (Some m) = Exact b \<and> b * Suc i \<le> maxExact
               \<longrightarrow> slept a ! i = Exact (b * Suc i))"
    by blast
  from aggregate_via_loop [OF ne demo_request_ok demoOutputs_not_all_errors demo_aggregator,
      of rateLimitedJudge noParse "js ''t0''"]
    loop_all_rate_limited [where judge = rateLimitedJudge and outs = demoOutputs
      and req = "js ''Build a REST API''" and parse = noParse and now = "js ''t0''"
      and ?m0.0 = ?msg and ?m1.0 = ?msg and ?m2.0 = ?msg]
    rate_limit_429 a(1)
  have calls: "attempts a = 3" by (auto simp: rateLimitedJudge_def)
  with a(2) have len: "length (slept a) = 2" by simp
  have "0 < length (slept a)" "1 < length (slept a)" using len by simp_all
  with a(3) have
    e0: "\<exists>m. rateLimitedJudge 0 ?P = Inl m
           \<and> (\<forall>b. baseDelay (Some m) = Exact b \<and> b * Suc 0 \<le> maxExact \<longrightarrow> slept a ! 0 = Exact (b * Suc 0))" and
    e1: "\<exists>m. rateLimitedJudge 1 ?P = Inl m
           \<and> (\<forall>b. baseDelay (Some m) = Exact b \<and> b * Suc 1 \<le> maxExact \<longrightarrow> slept a ! 1 = Exact (b * Suc 1))"
    by blast+
  from e0 have d0: "slept a ! 0 = Exact 7000"
    using demo_base by (auto simp: rateLimitedJudge_def maxExact_def)
  from e1 have d1: "slept a ! 1 = Exact 14000"
    using demo_base by (auto simp: rateLimitedJudge_def maxExact_def)
  have nohint: "baseDelay (Some (js ''API Error (429): Try again in 7 minutes'')) = Exact 20000"
    using inst [THEN conjunct2, THEN conjunct1, rule_format, OF demo_no_hint] .
  have "map foldUnit (js ''Try Again In '') = js ''try again in '' \<and> foldUnit 83 = cu CHR ''s''
           \<and> (\<forall>pre1 p1 ds1 c1 post1.
                 [] @ js ''Try Again In '' @ showNat 45 @ 83 # [] = pre1 @ p1 @ ds1 @ c1 # post1
                 \<and> map foldUnit p1 = js ''try again in '' \<and> ds1 \<noteq> [] \<and> list_all isDigit ds1
                 \<and> foldUnit c1 = cu CHR ''s''
                 \<longrightarrow> length ([] :: jstring) \<le> length pre1)"
    by (simp add: foldUnit_def)
  then have "baseDelay (Some ([] @ js ''Try Again In '' @ showNat 45 @ 83 # [])) =
                 (if 45 * 1000 \<le> maxExact then Exact (45 * 1000) else Large)"
    by (rule inst [THEN conjunct2, THEN conjunct2, rule_format])
  then have hint: "baseDelay (Some (js ''Try Again In 45S'')) = Exact 45000"
    by (simp add: showNat_45 maxExact_def)
  from a(1) calls len d0 d1 demo_no_hint nohint hint show ?thesis by blast
qed

subsection \<open>The heuristic winner\<close>

text \<open>
  The length score counts code units: thirty times U+00E9 is a text of length 30, which
  scores nothing.
\<close>

lemma scoreOf_counts_code_units:
  "scoreOf [233, 233, 233, 233, 233, 233, 233, 233, 233, 233, 233, 233, 233, 233, 233,
            233, 233, 233, 233, 233, 233, 233, 233, 233, 233, 233, 233, 233, 233, 233] = 0"
  by (simp add: scoreOf_def toLowerCase_def toLowerUnit_def actionableKeywords_def Let_def)

lemma setProp_fresh: "k \<notin> fst ` set ps \<Longrightarrow> setProp k v ps = ps @ [(k, v)]"
  by (induction ps) auto

lemma scores_foldl:
  "distinct (map fst acc @ map fst xs) \<Longrightarrow>
   foldl (\<lambda>scores (agentName, response). setProp agentName (scoreOf response) scores) acc xs
     = acc @ map (\<lambda>(n, r). (n, scoreOf r)) xs"
proof (induction xs arbitrary: acc)
  case Nil then show ?case by simp
next
  case (Cons x xs)
  obtain n r where x: "x = (n, r)" by (cases x)
  from Cons.prems x have fresh: "n \<notin> fst ` set acc" by auto
  from Cons.prems x have d: "distinct (map fst (acc @ [(n, scoreOf r)]) @ map fst xs)" by auto
  show ?case using Cons.IH [OF d] x by (simp add: setProp_fresh [OF fresh])
qed

lemma scoresOf_distinct:
  "distinct (map fst outs) \<Longrightarrow> scoresOf outs = map (\<lambda>(n, r). (n, scoreOf r)) outs"
  using scores_foldl [of "[]" outs] by (simp add: scoresOf_def)

lemma foldl_last_maximal:
  assumes pick: "\<And>a b. a \<in> S \<Longrightarrow> b \<in> S \<Longrightarrow> pick a b = (if f a > f b then a else b)"
  shows "set (x # xs) \<subseteq> S \<Longrightarrow>
     \<exists>pre post. x # xs = pre @ [foldl pick x xs] @ post
        \<and> (\<forall>y\<in>set pre. f y \<le> f (foldl pick x xs))
        \<and> (\<forall>y\<in>set post. (f y :: nat) < f (foldl pick x xs))"
proof (induction xs rule: rev_induct)
  case Nil
  show ?case by (rule exI [of _ "[]"], rule exI [of _ "[]"]) simp
next
  case (snoc y xs)
  let ?w = "foldl pick x xs"
  from snoc.prems have sub: "set (x # xs) \<subseteq> S" and yS: "y \<in> S" by auto
  from snoc.IH [OF sub] obtain pre post where dec:
    "x # xs = pre @ [?w] @ post" "\<forall>z\<in>set pre. f z \<le> f ?w" "\<forall>z\<in>set post. f z < f ?w" by blast
  have wS: "?w \<in> S"
  proof -
    have "?w \<in> set (x # xs)" by (subst dec(1)) simp
    with sub show ?thesis by blast
  qed
  show ?case
  proof (cases "f ?w > f y")
    case True
    then have r: "foldl pick x (xs @ [y]) = ?w" using pick [OF wS yS] by simp
    have "x # xs @ [y] = pre @ [?w] @ (post @ [y])" using dec(1) by simp
    then show ?thesis using r dec(2,3) True
      by (intro exI [of _ pre] exI [of _ "post @ [y]"]) auto
  next
    case False
    then have r: "foldl pick x (xs @ [y]) = y" using pick [OF wS yS] by simp
    have all: "\<forall>z\<in>set (x # xs). f z \<le> f y"
    proof
      fix z assume "z \<in> set (x # xs)"
      then have "z \<in> set pre \<or> z = ?w \<or> z \<in> set post" by (subst (asm) dec(1)) auto
      then have "f z \<le> f ?w" using dec(2,3) by (auto simp: less_imp_le)
      with False show "f z \<le> f y" by simp
    qed
    show ?thesis using r all
      by (intro exI [of _ "x # xs"] exI [of _ "[]"]) auto
  qed
qed

text \<open>
  Claim C5, as the code has it. For outputs that are not empty (their names distinct, as
  the keys of an object are), the winner of \<open>heuristicScoring\<close> is an output with the
  maximal score, and among the outputs with the maximal score it is the last one in the
  order of the entries: every output before it scores at most as much, every output after
  it scores strictly less.
\<close>

theorem heuristic_winner_last_maximal:
  assumes "outs \<noteq> []" "distinct (map fst outs)"
  shows "\<exists>r pre w post. heuristicScoring outs = Inr r
     \<and> outs = pre @ [w] @ post
     \<and> getProp r (js ''winner'') = Str (fst w)
     \<and> getProp r (js ''method'') = Str (js ''heuristic'')
     \<and> (\<forall>x\<in>set pre. scoreOf (snd x) \<le> scoreOf (snd w))
     \<and> (\<forall>x\<in>set post. scoreOf (snd x) < scoreOf (snd w))"
proof -
  let ?g = "\<lambda>(n, r). (n, scoreOf r)"
  let ?scores = "map ?g outs"
  let ?pick = "\<lambda>a b. if scoreGreater ?scores (fst a) (fst b) then a else b"
  have sc: "scoresOf outs = ?scores" using scoresOf_distinct [OF assms(2)] .
  have keys: "map fst ?scores = map fst outs" by (induction outs) auto
  have dist: "distinct (map fst ?scores)" unfolding keys using assms(2) .
  have look: "map_of ?scores (fst a) = Some (snd a)" if "a \<in> set ?scores" for a
  proof -
    from that have "(fst a, snd a) \<in> set ?scores" by simp
    from map_of_is_SomeI [OF dist this] show ?thesis .
  qed
  have pick: "\<And>a b. a \<in> set ?scores \<Longrightarrow> b \<in> set ?scores \<Longrightarrow>
      ?pick a b = (if snd a > snd b then a else b)"
    by (simp add: scoreGreater_def look)
  from assms(1) obtain x xs where xs: "?scores = x # xs" by (cases outs) auto
  then have sub: "set (x # xs) \<subseteq> set ?scores" by simp
  from foldl_last_maximal [of "set ?scores" ?pick snd x xs, OF pick sub]
  obtain pre post where dec:
    "x # xs = pre @ [foldl ?pick x xs] @ post"
    "\<forall>y\<in>set pre. snd y \<le> snd (foldl ?pick x xs)"
    "\<forall>y\<in>set post. snd y < snd (foldl ?pick x xs)" by blast
  let ?w = "foldl ?pick x xs"
  from dec(1) xs have "map ?g outs = pre @ ([?w] @ post)" by simp
  then obtain pre' rest where p1: "outs = pre' @ rest" "pre = map ?g pre'" "[?w] @ post = map ?g rest"
    by (auto simp: map_eq_append_conv)
  from p1(3) obtain w' post' where p2: "rest = w' # post'" "?w = ?g w'" "post = map ?g post'"
    by (cases rest) auto
  have run: "heuristicScoring outs =
      Inr [((js ''winner''), Str (fst ?w)),
           ((js ''synthesis''),
              Str (join [nl, nl]
                    (map (\<lambda>(name, response). (js ''['') @ name @ (js '']: '') @ take 300 response @ (js ''...'')) outs))),
           ((js ''recommendations''),
              Arr [Str (js ''Review all agent outputs''), Str (js ''Implement best practices from winner'')]),
           ((js ''finalCode''), Null),
           ((js ''method''), Str (js ''heuristic''))]"
    using xs by (simp add: heuristicScoring_def sc reduce_def Let_def)
  have fw: "fst ?w = fst w'" and sw: "snd ?w = scoreOf (snd w')"
    using p2(2) by (cases w'; simp)+
  have a: "\<forall>x\<in>set pre'. scoreOf (snd x) \<le> scoreOf (snd w')"
  proof
    fix e assume "e \<in> set pre'"
    then have "?g e \<in> set pre" using p1(2) by simp
    with dec(2) have "snd (?g e) \<le> snd ?w" by blast
    then show "scoreOf (snd e) \<le> scoreOf (snd w')" using sw by (cases e) simp
  qed
  have b: "\<forall>x\<in>set post'. scoreOf (snd x) < scoreOf (snd w')"
  proof
    fix e assume "e \<in> set post'"
    then have "?g e \<in> set post" using p2(3) by simp
    with dec(3) have "snd (?g e) < snd ?w" by blast
    then show "scoreOf (snd e) < scoreOf (snd w')" using sw by (cases e) simp
  qed
  have o: "outs = pre' @ [w'] @ post'" using p1(1) p2(1) by simp
  have w: "getProp [((js ''winner''), Str (fst ?w)),
           ((js ''synthesis''),
              Str (join [nl, nl]
                    (map (\<lambda>(name, response). (js ''['') @ name @ (js '']: '') @ take 300 response @ (js ''...'')) outs))),
           ((js ''recommendations''),
              Arr [Str (js ''Review all agent outputs''), Str (js ''Implement best practices from winner'')]),
           ((js ''finalCode''), Null),
           ((js ''method''), Str (js ''heuristic''))] (js ''winner'') = Str (fst w')"
    using fw by (simp add: getProp_def)
  have m: "getProp [((js ''winner''), Str (fst ?w)),
           ((js ''synthesis''),
              Str (join [nl, nl]
                    (map (\<lambda>(name, response). (js ''['') @ name @ (js '']: '') @ take 300 response @ (js ''...'')) outs))),
           ((js ''recommendations''),
              Arr [Str (js ''Review all agent outputs''), Str (js ''Implement best practices from winner'')]),
           ((js ''finalCode''), Null),
           ((js ''method''), Str (js ''heuristic''))] (js ''method'') = Str (js ''heuristic'')"
    by (simp add: getProp_def)
  from run o w m a b show ?thesis by blast
qed

lemma tied_scores: "scoreOf (js ''Use a cache'') = 1 \<and> scoreOf (js ''Use an index'') = 1"
  by (simp add: scoreOf_def toLowerCase_def toLowerUnit_def actionableKeywords_def Let_def)

theorem heuristic_tie_counterexample:
  "scoreOf (js ''Use a cache'') = scoreOf (js ''Use an index'')
   \<and> heuristicScoring [((js ''ArchitectAgent''), (js ''Use a cache'')), ((js ''PlannerAgent''), (js ''Use an index''))] =
       Inr [((js ''winner''), Str (js ''PlannerAgent'')),
            ((js ''synthesis''), Str ((js ''[ArchitectAgent]: Use a cache...'') @ [nl, nl] @ (js ''[PlannerAgent]: Use an index...''))),
            ((js ''recommendations''),
               Arr [Str (js ''Review all agent outputs''), Str (js ''Implement best practices from winner'')]),
            ((js ''finalCode''), Null),
            ((js ''method''), Str (js ''heuristic''))]"
  using tied_scores
  by (simp add: heuristicScoring_def scoresOf_def reduce_def scoreGreater_def Let_def)

lemma demo_scores:
  "scoreOf (js ''- Use refresh tokens'') = 2" "scoreOf (js ''Error: upstream timeout'') = 0" "scoreOf (js ''ok'') = 0"
  by (simp_all add: scoreOf_def toLowerCase_def toLowerUnit_def actionableKeywords_def Let_def)

lemma demoOutputs_heuristic:
  "\<exists>r. heuristicScoring demoOutputs = Inr r \<and> getProp r (js ''winner'') = Str (js ''ArchitectAgent'')"
  using demo_scores
  by (simp add: heuristicScoring_def scoresOf_def reduce_def scoreGreater_def Let_def demoOutputs_def
      getProp_def)

theorem heuristic_winner_last_maximal_witness:
  "demoOutputs \<noteq> [] \<and> distinct (map fst demoOutputs)
   \<and> (\<exists>r pre w post. heuristicScoring demoOutputs = Inr r
         \<and> demoOutputs = pre @ [w] @ post
         \<and> getProp r (js ''winner'') = Str (fst w)
         \<and> fst w = (js ''ArchitectAgent''))"
proof -
  have ne: "demoOutputs \<noteq> []" and di: "distinct (map fst demoOutputs)"
    by (simp_all add: demoOutputs_def)
  from heuristic_winner_last_maximal [OF ne di] obtain r pre w post where h:
    "heuristicScoring demoOutputs = Inr r" "demoOutputs = pre @ [w] @ post"
    "getProp r (js ''winner'') = Str (fst w)" by blast
  from demoOutputs_heuristic h(1) have "getProp r (js ''winner'') = Str (js ''ArchitectAgent'')" by auto
  with h(3) have "fst w = (js ''ArchitectAgent'')" by simp
  with ne di h show ?thesis by blast
qed

section \<open>Properties of the workflow\<close>

lemma getProp_publish_method: "getProp (publish s) (js ''method'') = getProp s (js ''method'')"
  by (simp add: publish_def getProp_def)

lemma judgedResult_method: "getProp (judgedResult parse now outs response) (js ''method'') = Str (js ''llm'')"
  by (simp add: judgedResult_def Let_def getProp_setProp split: option.splits)
     (simp add: getProp_def)

lemma loop_verdict:
  "verdict (judgedLoop judge parse now outs req 0 None) = Some v \<Longrightarrow>
   \<exists>response. v = judgedResult parse now outs response"
  by (auto simp: judgedLoop_unfold Let_def split: sum.splits if_splits)

lemma heuristicFallback_Inr:
  "heuristicFallback now outs n ds = Inr a \<Longrightarrow> getProp (synthesisResult a) (js ''method'') = Str (js ''heuristic'')"
  by (auto simp: heuristicFallback_def heuristicScoring_def Let_def getProp_setProp getProp_def
      split: sum.splits)

lemma fallbackSynthesis_method:
  "getProp (fallbackSynthesis now rs) (js ''method'') = Str (js ''fallback'')"
  by (simp add: fallbackSynthesis_def getProp_def)

lemma aggregate_method:
  assumes "aggregate env best judge parse now outs req provider model = Inr a"
  shows "getProp (synthesisResult a) (js ''method'') \<in> {Str (js ''llm''), Str (js ''heuristic''), Str (js ''error_fallback'')}"
proof -
  from assms have valid: "length outs \<noteq> 0" "\<not> (req = [] \<or> trimIsEmpty req)"
    by (auto simp: aggregate_def split: if_splits)
  show ?thesis
  proof (cases "list_all isErrorOutput (map snd outs) \<and> length (map snd outs) > 0")
    case True
    with assms valid have "a = \<lparr> synthesisResult = errorFallback now (map snd outs), attempts = 0, slept = [] \<rparr>"
      by (simp add: aggregate_def Let_def)
    then show ?thesis by (simp add: errorFallback_def getProp_def)
  next
    case False
    show ?thesis
    proof (cases "createAggregatorAgent env best provider model")
      case (Inl e)
      with assms valid False show ?thesis by (simp add: aggregate_def Let_def)
    next
      case (Inr ag)
      show ?thesis
      proof (cases ag)
        case None
        with assms valid False Inr have "heuristicFallback now outs 0 [] = Inr a"
          by (simp add: aggregate_def Let_def)
        from heuristicFallback_Inr [OF this] show ?thesis by simp
      next
        case (Some aggregatorAgent)
        let ?j = "judgedLoop judge parse now outs req 0 None"
        show ?thesis
        proof (cases "verdict ?j")
          case None
          with assms valid False Inr Some have "heuristicFallback now outs (judgeCalls ?j) (delays ?j) = Inr a"
            by (simp add: aggregate_def Let_def)
          from heuristicFallback_Inr [OF this] show ?thesis by simp
        next
          case (Some v)
          with assms valid False Inr \<open>ag = Some aggregatorAgent\<close> have "synthesisResult a = v"
            by (auto simp: aggregate_def Let_def)
          moreover from loop_verdict [OF Some] obtain response where
            "v = judgedResult parse now outs response" by blast
          ultimately show ?thesis using judgedResult_method [of parse now outs response] by simp
        qed
      qed
    qed
  qed
qed

lemma aggregate_blank_request:
  "trimIsEmpty req \<Longrightarrow> \<exists>e. aggregate env best judge parse now outs req provider model = Inl e"
  by (simp add: aggregate_def)

text \<open>
  Claim C7, as the code has it. \<open>orchestrateWorkflow\<close> always returns, with exactly one
  synthesis, and the method of that synthesis is one of \<open>llm\<close> (the judged path),
  \<open>heuristic\<close>, \<open>error_fallback\<close> and \<open>fallback\<close>; it is \<open>fallback\<close> exactly when \<open>aggregate\<close>
  has thrown and the \<open>catch\<close> of \<open>orchestrateWorkflow\<close> has built the synthesis.
\<close>

theorem workflow_method:
  "\<exists>w. orchestrateWorkflow env agents pg now best runs judge parse req ctx preset provider
          aggregatorProvider model aggregatorModel = Some (Inr w)
     \<and> getProp (finalSynthesis w) (js ''method'')
          \<in> {Str (js ''llm''), Str (js ''heuristic''), Str (js ''error_fallback''), Str (js ''fallback'')}
     \<and> (getProp (finalSynthesis w) (js ''method'') = Str (js ''fallback'')) =
         (\<exists>e. aggregate env best judge parse now (collectOutputs (agentResults w)) req
                 aggregatorProvider aggregatorModel = Inl e)"
proof -
  from dispatch_total [of env agents pg now best runs req ctx preset provider model]
  obtain d where d: "processAllAgents env agents pg now best runs req ctx preset provider model = Some (Inr d)"
    by blast
  let ?agg = "aggregate env best judge parse now (collectOutputs (responses d)) req
                aggregatorProvider aggregatorModel"
  show ?thesis
  proof (cases ?agg)
    case (Inl e)
    have "getProp (fallbackSynthesis now (responses d)) (js ''method'') = Str (js ''fallback'')"
      by (simp add: fallbackSynthesis_def getProp_def)
    with d Inl show ?thesis
      using getProp_publish_method [of "fallbackSynthesis now (responses d)"]
      by (simp add: orchestrateWorkflow_def Let_def)
  next
    case (Inr a)
    from aggregate_method [OF Inr]
    have "getProp (synthesisResult a) (js ''method'') \<in> {Str (js ''llm''), Str (js ''heuristic''), Str (js ''error_fallback'')}" .
    with d Inr show ?thesis
      using getProp_publish_method [of "synthesisResult a"]
      by (auto simp: orchestrateWorkflow_def Let_def)
  qed
qed

theorem workflow_method_witness:
  "\<exists>w. orchestrateWorkflow demoEnv demoAgents demoGenerator (js ''t0'') demoBest demoRuns rateLimitedJudge noParse
          (js ''Build a REST API'') [] (js ''specialized'') None None None None = Some (Inr w)
     \<and> getProp (finalSynthesis w) (js ''method'')
          \<in> {Str (js ''llm''), Str (js ''heuristic''), Str (js ''error_fallback''), Str (js ''fallback'')}"
  using workflow_method [of demoEnv demoAgents demoGenerator "(js ''t0'')" demoBest demoRuns rateLimitedJudge
      noParse "(js ''Build a REST API'')" "[]" "(js ''specialized'')" None None None None]
  by blast

theorem workflow_method_counterexample:
  "(case orchestrateWorkflow demoEnv demoAgents demoGenerator (js ''t0'') demoBest demoRuns rateLimitedJudge noParse
          (js '' '') [] (js ''specialized'') None None None None of
      Some (Inr w) \<Rightarrow> getProp (finalSynthesis w) (js ''method'')
    | _ \<Rightarrow> Undefined) = Str (js ''fallback'')"
proof -
  from dispatch_total [of demoEnv demoAgents demoGenerator "(js ''t0'')" demoBest demoRuns "(js '' '')" "[]"
      "(js ''specialized'')" None None]
  obtain d where d: "processAllAgents demoEnv demoAgents demoGenerator (js ''t0'') demoBest demoRuns (js '' '') []
      (js ''specialized'') None None = Some (Inr d)" by blast
  have blank: "trimIsEmpty (js '' '')" by (simp add: trimIsEmpty_def trim_def isWhiteSpace_def)
  from aggregate_blank_request [OF blank] obtain e where
    "aggregate demoEnv demoBest rateLimitedJudge noParse (js ''t0'') (collectOutputs (responses d)) (js '' '') None None
       = Inl e" by blast
  with d show ?thesis
    using getProp_publish_method [of "fallbackSynthesis (js ''t0'') (responses d)"]
      fallbackSynthesis_method [of "js ''t0''" "responses d"]
    by (simp add: orchestrateWorkflow_def Let_def)
qed

section \<open>Properties of the providers\<close>

lemma set_insertBy: "set (insertBy cmp x ys) = insert x (set ys)"
  by (induction ys) auto

lemma set_sortBy: "set (sortBy cmp xs) = set xs"
  by (induction xs) (simp_all add: sortBy_def set_insertBy)

lemma length_insertBy: "length (insertBy cmp x ys) = Suc (length ys)"
  by (induction ys) auto

lemma length_sortBy: "length (sortBy cmp xs) = length xs"
  by (induction xs) (simp_all add: sortBy_def length_insertBy)

lemma set_rankedModels: "set (rankedModels lc models) = {m \<in> set models. isChatModel m}"
  by (auto simp: rankedModels_def set_sortBy)

text \<open>The comparator follows the rank: a smaller rank comes first, equal ranks are left to
  \<open>localeCompare\<close>.\<close>

lemma compareModels_rank:
  "rankKey a < rankKey b \<Longrightarrow> compareModels lc a b = - 1"
  "rankKey b < rankKey a \<Longrightarrow> compareModels lc a b = 1"
  "rankKey a = rankKey b \<Longrightarrow> compareModels lc a b = lc a b"
  by (auto simp: compareModels_def rankKey_def split: if_splits)

lemma compareModels_le: "compareModels lc a b \<le> 0 \<Longrightarrow> rankKey a \<le> rankKey b"
  using compareModels_rank(2) [of b a lc] by (cases "rankKey b < rankKey a") auto

lemma compareModels_gt: "\<not> compareModels lc a b \<le> 0 \<Longrightarrow> rankKey b \<le> rankKey a"
  using compareModels_rank(1) [of a b lc] by (cases "rankKey a < rankKey b") auto

lemma sorted_insertBy:
  "sorted (map rankKey ys) \<Longrightarrow> sorted (map rankKey (insertBy (compareModels lc) x ys))"
proof (induction ys)
  case Nil
  then show ?case by simp
next
  case (Cons y ys)
  show ?case
  proof (cases "compareModels lc x y \<le> 0")
    case True
    from compareModels_le [OF True] have "rankKey x \<le> rankKey y" .
    with Cons.prems True show ?thesis by auto
  next
    case False
    from compareModels_gt [OF False] have xy: "rankKey y \<le> rankKey x" .
    from Cons.prems have "sorted (map rankKey ys)" by simp
    with Cons.IH have s: "sorted (map rankKey (insertBy (compareModels lc) x ys))" by simp
    have "\<forall>z\<in>set (insertBy (compareModels lc) x ys). rankKey y \<le> rankKey z"
      using Cons.prems xy by (auto simp: set_insertBy)
    with s False show ?thesis by simp
  qed
qed

lemma sorted_sortBy: "sorted (map rankKey (sortBy (compareModels lc) xs))"
  by (induction xs) (simp_all add: sortBy_def sorted_insertBy)

lemma sorted_rankedModels: "sorted (map rankKey (rankedModels lc models))"
  by (simp add: rankedModels_def sorted_sortBy)

lemma alpha_facts:
  "isChatModel (js ''alpha-2.0'')" "isChatModel (js ''alpha-2.0-mini'')" "isChatModel (js ''embed-small'')"
  "hasVersion (js ''alpha-2.0'')" "hasVersion (js ''alpha-2.0-mini'')" "\<not> hasVersion (js ''embed-small'')"
  "\<not> isPro (js ''alpha-2.0'')" "\<not> isPro (js ''alpha-2.0-mini'')"
  "\<not> isMini (js ''alpha-2.0'')" "isMini (js ''alpha-2.0-mini'')"
  by (simp_all add: isChatModel_def hasVersion_def isPro_def isMini_def isDigit_def
      toLowerCase_def toLowerUnit_def Let_def)

lemma alpha_ranked:
  "list_all (\<lambda>models. rankedModels lc models = [js ''alpha-2.0'', js ''alpha-2.0-mini'', js ''embed-small'']
                     \<and> selectBestModel lc d models = js ''alpha-2.0'')
     [[js ''alpha-2.0'', js ''alpha-2.0-mini'', js ''embed-small''],
      [js ''alpha-2.0'', js ''embed-small'', js ''alpha-2.0-mini''],
      [js ''alpha-2.0-mini'', js ''alpha-2.0'', js ''embed-small''],
      [js ''alpha-2.0-mini'', js ''embed-small'', js ''alpha-2.0''],
      [js ''embed-small'', js ''alpha-2.0'', js ''alpha-2.0-mini''],
      [js ''embed-small'', js ''alpha-2.0-mini'', js ''alpha-2.0'']]"
  using alpha_facts
  by (simp add: rankedModels_def sortBy_def compareModels_def selectBestModel_def)

lemma excluded_not_chat:
  assumes "includes_str (toLowerCase m) (js ''embedding'') \<or> includes_str (toLowerCase m) (js ''moderation'')
      \<or> includes_str (toLowerCase m) (js ''whisper'') \<or> includes_str (toLowerCase m) (js ''dall-e'')
      \<or> includes_str (toLowerCase m) (js ''tts'')"
  shows "\<not> isChatModel m"
  using assms by (auto simp: isChatModel_def Let_def)

lemma ranked_nonempty: "filter isChatModel models \<noteq> [] \<Longrightarrow> rankedModels lc models \<noteq> []"
proof -
  assume "filter isChatModel models \<noteq> []"
  then have "length (rankedModels lc models) \<noteq> 0" by (simp add: rankedModels_def length_sortBy)
  then show ?thesis by simp
qed

text \<open>
  Claim C4, as the code has it. In whatever order \<open>alpha-2.0\<close>, \<open>alpha-2.0-mini\<close> and
  \<open>embed-small\<close> are listed, the ranking is \<open>alpha-2.0\<close>, \<open>alpha-2.0-mini\<close>, \<open>embed-small\<close> and
  \<open>alpha-2.0\<close> is selected: \<open>embed-small\<close> is not excluded (its name holds none of the
  substrings the filter looks for) and ranks last, having no digit. In general the ranking
  holds exactly the candidates whose lower-cased name contains none of \<open>embedding\<close>,
  \<open>moderation\<close>, \<open>whisper\<close>, \<open>dall-e\<close> and \<open>tts\<close>, each once, in the order of their ranks; the
  selected model is the first of the ranking, so that no chat model of the list has a
  better rank, and when the filter leaves nothing the raw first candidate is returned.
\<close>

theorem selectBestModel_ranking:
  "list_all (\<lambda>models. rankedModels lc models = [js ''alpha-2.0'', js ''alpha-2.0-mini'', js ''embed-small'']
                     \<and> selectBestModel lc d models = js ''alpha-2.0'')
     [[js ''alpha-2.0'', js ''alpha-2.0-mini'', js ''embed-small''],
      [js ''alpha-2.0'', js ''embed-small'', js ''alpha-2.0-mini''],
      [js ''alpha-2.0-mini'', js ''alpha-2.0'', js ''embed-small''],
      [js ''alpha-2.0-mini'', js ''embed-small'', js ''alpha-2.0''],
      [js ''embed-small'', js ''alpha-2.0'', js ''alpha-2.0-mini''],
      [js ''embed-small'', js ''alpha-2.0-mini'', js ''alpha-2.0'']]
   \<and> set (rankedModels lc models) = {m \<in> set models. isChatModel m}
   \<and> length (rankedModels lc models) = length (filter isChatModel models)
   \<and> sorted (map rankKey (rankedModels lc models))
   \<and> (\<forall>m. includes_str (toLowerCase m) (js ''embedding'') \<or> includes_str (toLowerCase m) (js ''moderation'')
           \<or> includes_str (toLowerCase m) (js ''whisper'') \<or> includes_str (toLowerCase m) (js ''dall-e'')
           \<or> includes_str (toLowerCase m) (js ''tts'')
         \<longrightarrow> m \<notin> set (rankedModels lc models))
   \<and> (filter isChatModel models \<noteq> [] \<longrightarrow>
         selectBestModel lc d models = hd (rankedModels lc models)
         \<and> selectBestModel lc d models \<in> set models \<and> isChatModel (selectBestModel lc d models)
         \<and> (\<forall>m\<in>set models. isChatModel m \<longrightarrow> rankKey (selectBestModel lc d models) \<le> rankKey m))
   \<and> (models \<noteq> [] \<and> filter isChatModel models = [] \<longrightarrow> selectBestModel lc d models = hd models)"
proof (intro conjI allI impI ballI)
  show "list_all (\<lambda>models. rankedModels lc models = [js ''alpha-2.0'', js ''alpha-2.0-mini'', js ''embed-small'']
                     \<and> selectBestModel lc d models = js ''alpha-2.0'')
     [[js ''alpha-2.0'', js ''alpha-2.0-mini'', js ''embed-small''],
      [js ''alpha-2.0'', js ''embed-small'', js ''alpha-2.0-mini''],
      [js ''alpha-2.0-mini'', js ''alpha-2.0'', js ''embed-small''],
      [js ''alpha-2.0-mini'', js ''embed-small'', js ''alpha-2.0''],
      [js ''embed-small'', js ''alpha-2.0'', js ''alpha-2.0-mini''],
      [js ''embed-small'', js ''alpha-2.0-mini'', js ''alpha-2.0'']]"
    by (rule alpha_ranked)
  show "set (rankedModels lc models) = {m \<in> set models. isChatModel m}"
    by (rule set_rankedModels)
  show "length (rankedModels lc models) = length (filter isChatModel models)"
    by (simp add: rankedModels_def length_sortBy)
  show "sorted (map rankKey (rankedModels lc models))"
    by (rule sorted_rankedModels)
next
  fix m
  assume "includes_str (toLowerCase m) (js ''embedding'') \<or> includes_str (toLowerCase m) (js ''moderation'')
           \<or> includes_str (toLowerCase m) (js ''whisper'') \<or> includes_str (toLowerCase m) (js ''dall-e'')
           \<or> includes_str (toLowerCase m) (js ''tts'')"
  then have "\<not> isChatModel m" by (rule excluded_not_chat)
  then show "m \<notin> set (rankedModels lc models)" by (simp add: set_rankedModels)
next
  assume ne: "filter isChatModel models \<noteq> []"
  then have mne: "models \<noteq> []" by auto
  from ranked_nonempty [OF ne] obtain best rest where r: "rankedModels lc models = best # rest"
    by (cases "rankedModels lc models") auto
  from mne obtain first others where m: "models = first # others" by (cases models) auto
  have sel: "selectBestModel lc d models = best"
    using ne r m by (simp add: selectBestModel_def del: filter.simps)
  then show "selectBestModel lc d models = hd (rankedModels lc models)" using r by simp
  have "best \<in> set (rankedModels lc models)" using r by simp
  then have "best \<in> set models \<and> isChatModel best" by (simp add: set_rankedModels)
  with sel show "selectBestModel lc d models \<in> set models" "isChatModel (selectBestModel lc d models)"
    by simp_all
  fix x assume "x \<in> set models" "isChatModel x"
  then have "x \<in> set (rankedModels lc models)" by (simp add: set_rankedModels)
  then have "x = best \<or> x \<in> set rest" using r by simp
  moreover have "sorted (map rankKey (best # rest))" using sorted_rankedModels [of lc models] r by simp
  ultimately have "rankKey best \<le> rankKey x" by auto
  with sel show "rankKey (selectBestModel lc d models) \<le> rankKey x" by simp
next
  assume "models \<noteq> [] \<and> filter isChatModel models = []"
  then show "selectBestModel lc d models = hd models"
    by (cases models) (simp_all add: selectBestModel_def del: filter.simps)
qed

theorem selectBestModel_ranking_counterexample:
  "js ''embed-small'' \<in> set (filter isChatModel [js ''alpha-2.0'', js ''alpha-2.0-mini'', js ''embed-small''])"
  using alpha_facts by simp

lemma embedding_facts:
  "includes_str (toLowerCase (js ''text-embedding-3-small'')) (js ''embedding'')"
  "isChatModel (js ''gpt-4o'')" "hasVersion (js ''gpt-4o'')"
  by (simp_all add: isChatModel_def hasVersion_def isDigit_def toLowerCase_def toLowerUnit_def Let_def)

theorem selectBestModel_ranking_witness:
  "js ''text-embedding-3-small'' \<notin> set (rankedModels (\<lambda>a b. 0) [js ''text-embedding-3-small'', js ''gpt-4o''])
   \<and> selectBestModel (\<lambda>a b. 0) (js ''gpt-4o-mini'') [js ''text-embedding-3-small'', js ''gpt-4o''] = js ''gpt-4o''
   \<and> selectBestModel (\<lambda>a b. 0) (js ''gpt-4o-mini'') [js ''text-embedding-3-small''] = js ''text-embedding-3-small''"
proof -
  note a = selectBestModel_ranking [of "\<lambda>a b. 0" "js ''gpt-4o-mini''" "[js ''text-embedding-3-small'', js ''gpt-4o'']"]
  note b = selectBestModel_ranking [of "\<lambda>a b. 0" "js ''gpt-4o-mini''" "[js ''text-embedding-3-small'']"]
  have nc: "\<not> isChatModel (js ''text-embedding-3-small'')"
    using embedding_facts(1) by (simp add: isChatModel_def Let_def)
  note excl = a [THEN conjunct2, THEN conjunct2, THEN conjunct2, THEN conjunct2, THEN conjunct1, rule_format]
  have 1: "js ''text-embedding-3-small'' \<notin> set (rankedModels (\<lambda>a b. 0) [js ''text-embedding-3-small'', js ''gpt-4o''])"
    by (rule excl) (use embedding_facts(1) in simp)
  have f: "filter isChatModel [js ''text-embedding-3-small'', js ''gpt-4o''] \<noteq> []"
    using embedding_facts(2) by simp
  note chosen = a [THEN conjunct2, THEN conjunct2, THEN conjunct2, THEN conjunct2, THEN conjunct2,
      THEN conjunct1, rule_format, OF f]
  have "selectBestModel (\<lambda>a b. 0) (js ''gpt-4o-mini'') [js ''text-embedding-3-small'', js ''gpt-4o'']
      \<in> set [js ''text-embedding-3-small'', js ''gpt-4o'']"
    by (rule chosen [THEN conjunct2, THEN conjunct1])
  moreover have "isChatModel (selectBestModel (\<lambda>a b. 0) (js ''gpt-4o-mini'') [js ''text-embedding-3-small'', js ''gpt-4o''])"
    by (rule chosen [THEN conjunct2, THEN conjunct2, THEN conjunct1])
  ultimately have 2: "selectBestModel (\<lambda>a b. 0) (js ''gpt-4o-mini'') [js ''text-embedding-3-small'', js ''gpt-4o''] = js ''gpt-4o''"
    using nc by auto
  have e: "[js ''text-embedding-3-small''] \<noteq> [] \<and> filter isChatModel [js ''text-embedding-3-small''] = []"
    using nc by simp
  note raw = b [THEN conjunct2, THEN conjunct2, THEN conjunct2, THEN conjunct2, THEN conjunct2,
      THEN conjunct2, rule_format, OF e]
  from raw have 3: "selectBestModel (\<lambda>a b. 0) (js ''gpt-4o-mini'') [js ''text-embedding-3-small''] = js ''text-embedding-3-small''"
    by simp
  from 1 2 3 show ?thesis by blast
qed

lemma minimalInstructions_length: "length minimalInstructions = 80"
  by (simp add: minimalInstructions_def)

lemma truncatePrompt_length: "27 \<le> length (truncatePrompt match promptText)"
proof -
  define r0 where "r0 = identityPart (fst (extractIdentity match promptText))
      (snd (extractIdentity match promptText)) @ taskPart match promptText @ minimalInstructions"
  define r where "r = (if length r0 > (maxInputTokens - 300) * 3
            then take ((maxInputTokens - 300) * 3 - 50) r0 @ [nl] @ (js ''[Truncated]'') else r0)"
  define minimal where "minimal =
      (case match YouAre r of Some m \<Rightarrow> group m 0 | None \<Rightarrow> []) @ [nl, nl]
      @ (case match TaskLine r of Some m \<Rightarrow> group m 0 | None \<Rightarrow> []) @ [nl, nl]
      @ (js ''Provide brief analysis.'')"
  have unfolded: "truncatePrompt match promptText =
      (if estimateTokens r > maxInputTokens then
         (if estimateTokens minimal \<le> maxInputTokens then minimal
          else take ((maxInputTokens - 100) * 3) r)
       else r)"
    unfolding truncatePrompt_def Let_def r0_def r_def minimal_def by (rule refl)
  have r0: "80 \<le> length r0" unfolding r0_def by (simp add: minimalInstructions_length)
  have mc: "(maxInputTokens - 300) * 3 - 50 = 5050" by (simp add: maxInputTokens_def)
  have r: "80 \<le> length r"
  proof (cases "length r0 > (maxInputTokens - 300) * 3")
    case True
    then have "5050 \<le> length r0" by (simp add: maxInputTokens_def)
    then have "length (take 5050 r0) = 5050" by simp
    then show ?thesis using True by (simp add: r_def mc)
  next
    case False
    then show ?thesis using r0 by (simp add: r_def)
  qed
  have m: "27 \<le> length minimal" unfolding minimal_def by simp
  have t: "27 \<le> length (take ((maxInputTokens - 100) * 3) r)" if "estimateTokens r > maxInputTokens"
  proof -
    from that have "2000 < (length r + 2) div 3"
      by (simp add: estimateTokens_def maxInputTokens_def split: if_splits)
    then have "5700 \<le> length r" by linarith
    then show ?thesis by (simp add: maxInputTokens_def)
  qed
  show ?thesis using r m t by (simp add: unfolded)
qed

lemma truncatePrompt_noMatch_hello: "truncatePrompt noMatch (js ''Hello'') = minimalInstructions"
  by (simp add: truncatePrompt_def Let_def extractIdentity_def identityPart_def taskPart_def noMatch_def
      minimalInstructions_def estimateTokens_def maxInputTokens_def toLowerCase_def toLowerUnit_def)

text \<open>
  Claim C6 at a prompt within the budget. \<open>Hello\<close> is estimated at 2 tokens, far below the
  2000 of the budget, and still \<open>GroqAgent.process\<close> does not send it: whatever the regular
  expressions find, the content posted differs from the prompt, and as they find nothing
  in \<open>Hello\<close> the content is the fixed instruction line alone.
\<close>

theorem groq_reduces_prompt_within_budget:
  "estimateTokens (js ''Hello'') = 2 \<and> estimateTokens (js ''Hello'') \<le> maxInputTokens
   \<and> rq_content (groqRequest match maxTokens (js ''Hello'')) \<noteq> (js ''Hello'')
   \<and> rq_content (groqRequest noMatch maxTokens (js ''Hello'')) =
       (js ''Provide a concise analysis and recommendations. Keep response under 250 tokens.'') @ [nl]"
proof -
  have "27 \<le> length (truncatePrompt match (js ''Hello''))" by (rule truncatePrompt_length)
  then have "truncatePrompt match (js ''Hello'') \<noteq> (js ''Hello'')" by auto
  then show ?thesis
    using truncatePrompt_noMatch_hello
    by (simp add: groqRequest_def Let_def estimateTokens_def maxInputTokens_def minimalInstructions_def)
qed

end
